theory Spec2Isabelle
  imports Main "HOL-Library.Sublist" "HOL-Library.List_Lexorder" "HOL-Library.Char_ord"
    "HOL-Library.AList"
begin

section \<open>Text\<close>

text \<open>
  Python \<open>str\<close> values are modelled as \<open>string\<close>: a list of characters, each a code
  point below 256.  Byte strings are \<open>string\<close> as well.  The character classes below
  are those of CPython on that range.
\<close>

definition is_space :: "char \<Rightarrow> bool" where
  \<comment> \<open>\<open>str.isspace\<close>, also the class \<open>\\s\<close> of \<open>re\<close> on \<open>str\<close> patterns\<close>
  "is_space c = (c \<in> set [CHR 0x09, CHR 0x0A, CHR 0x0B, CHR 0x0C, CHR 0x0D,
                            CHR 0x1C, CHR 0x1D, CHR 0x1E, CHR 0x1F, CHR 0x20,
                            CHR 0x85, CHR 0xA0])"

definition in_range :: "nat \<Rightarrow> nat \<Rightarrow> char \<Rightarrow> bool" where
  "in_range lo hi c = (lo \<le> of_char c \<and> (of_char c :: nat) \<le> hi)"

definition is_word :: "char \<Rightarrow> bool" where
  \<comment> \<open>the class \<open>\\w\<close>: \<open>str.isalnum\<close> or an underscore\<close>
  "is_word c = (in_range 0x30 0x39 c \<or> in_range 0x41 0x5A c \<or> c = CHR ''_''
     \<or> in_range 0x61 0x7A c
     \<or> c \<in> set [CHR 0xAA, CHR 0xB2, CHR 0xB3, CHR 0xB5, CHR 0xB9, CHR 0xBA,
                   CHR 0xBC, CHR 0xBD, CHR 0xBE]
     \<or> in_range 0xC0 0xD6 c \<or> in_range 0xD8 0xF6 c \<or> in_range 0xF8 0xFF c)"

definition lower :: "char \<Rightarrow> char" where
  \<comment> \<open>case folding as \<open>re.IGNORECASE\<close> applies it to the ASCII literals of the patterns\<close>
  "lower c = (case map_of (zip ''ABCDEFGHIJKLMNOPQRSTUVWXYZ'' ''abcdefghijklmnopqrstuvwxyz'') c of
                Some l \<Rightarrow> l | None \<Rightarrow> c)"

definition lstrip_by :: "(char \<Rightarrow> bool) \<Rightarrow> string \<Rightarrow> string" where
  "lstrip_by p s = dropWhile p s"

definition rstrip_by :: "(char \<Rightarrow> bool) \<Rightarrow> string \<Rightarrow> string" where
  "rstrip_by p s = rev (dropWhile p (rev s))"

definition strip :: "string \<Rightarrow> string" where
  \<comment> \<open>\<open>s.strip()\<close>\<close>
  "strip s = rstrip_by is_space (lstrip_by is_space s)"

definition lstrip_slash :: "string \<Rightarrow> string" where
  \<comment> \<open>\<open>s.lstrip("/")\<close>\<close>
  "lstrip_slash s = lstrip_by (\<lambda>c. c = CHR ''/'') s"

definition rstrip_slash :: "string \<Rightarrow> string" where
  \<comment> \<open>\<open>s.rstrip("/")\<close>\<close>
  "rstrip_slash s = rstrip_by (\<lambda>c. c = CHR ''/'') s"

definition startswith :: "string \<Rightarrow> string \<Rightarrow> bool" where
  \<comment> \<open>\<open>s.startswith(p)\<close>\<close>
  "startswith s p = (take (length p) s = p)"

section \<open>Regular expressions\<close>

text \<open>
  The patterns of the exporter use literals, single-character classes, greedy repetition
  of a class, capture groups, one back-reference, a negative look-ahead for one
  character, \<open>\\b\<close>, \<open>^\<close> and \<open>$\<close>.  A pattern is a list of atoms; \<open>mt\<close> is the
  backtracking matcher of \<open>re\<close> on such a list: it tries the longest repetition first
  and returns the first match found in that order.  Its arguments are the
  case-insensitivity flag, the atoms still to match, the start offsets of the open
  groups, the captures, the text before the position (reversed) and the text from the
  position on.
\<close>

datatype cls = In string | NotIn string | Space

fun cls_ok :: "bool \<Rightarrow> cls \<Rightarrow> char \<Rightarrow> bool" where
  "cls_ok ic (In s) c = (if ic then lower c \<in> set (map lower s) else c \<in> set s)"
| "cls_ok ic (NotIn s) c = (if ic then lower c \<notin> set (map lower s) else c \<notin> set s)"
| "cls_ok ic Space c = is_space c"

definition bslash :: char where
  "bslash = CHR 0x5C"

definition chr_eq :: "bool \<Rightarrow> char \<Rightarrow> char \<Rightarrow> bool" where
  "chr_eq ic c x = (if ic then lower c = lower x else c = x)"

datatype atom = Chr char | Cls cls | Star cls | Plus cls | Opt cls
  | Open nat | Close nat | Backref nat | NotAhead char | WordB | Bol | Eol

type_synonym caps = "(nat \<times> string) list"

fun mt :: "bool \<Rightarrow> atom list \<Rightarrow> (nat \<times> nat) list \<Rightarrow> caps \<Rightarrow> string \<Rightarrow> string
           \<Rightarrow> (caps \<times> string \<times> string) option" where
  "mt ic [] os cs b xs = Some (cs, b, xs)"
| "mt ic (Chr c # as) os cs b [] = None"
| "mt ic (Chr c # as) os cs b (x # xs) =
     (if chr_eq ic c x then mt ic as os cs (x # b) xs else None)"
| "mt ic (Cls k # as) os cs b [] = None"
| "mt ic (Cls k # as) os cs b (x # xs) =
     (if cls_ok ic k x then mt ic as os cs (x # b) xs else None)"
| "mt ic (Star k # as) os cs b [] = mt ic as os cs b []"
| "mt ic (Star k # as) os cs b (x # xs) =
     (if cls_ok ic k x
      then (case mt ic (Star k # as) os cs (x # b) xs of
              Some r \<Rightarrow> Some r
            | None \<Rightarrow> mt ic as os cs b (x # xs))
      else mt ic as os cs b (x # xs))"
| "mt ic (Plus k # as) os cs b [] = None"
| "mt ic (Plus k # as) os cs b (x # xs) =
     (if cls_ok ic k x then mt ic (Star k # as) os cs (x # b) xs else None)"
| "mt ic (Opt k # as) os cs b [] = mt ic as os cs b []"
| "mt ic (Opt k # as) os cs b (x # xs) =
     (if cls_ok ic k x
      then (case mt ic as os cs (x # b) xs of
              Some r \<Rightarrow> Some r
            | None \<Rightarrow> mt ic as os cs b (x # xs))
      else mt ic as os cs b (x # xs))"
| "mt ic (Open n # as) os cs b xs = mt ic as ((n, length b) # os) cs b xs"
| "mt ic (Close n # as) os cs b xs =
     (case map_of os n of
        None \<Rightarrow> None
      | Some st \<Rightarrow> mt ic as os ((n, rev (take (length b - st) b)) # cs) b xs)"
| "mt ic (Backref n # as) os cs b xs =
     (case map_of cs n of
        None \<Rightarrow> None
      | Some g \<Rightarrow>
          if length g \<le> length xs \<and> list_all2 (chr_eq ic) g (take (length g) xs)
          then mt ic as os cs (rev (take (length g) xs) @ b) (drop (length g) xs)
          else None)"
| "mt ic (NotAhead c # as) os cs b [] = mt ic as os cs b []"
| "mt ic (NotAhead c # as) os cs b (x # xs) =
     (if chr_eq ic c x then None else mt ic as os cs b (x # xs))"
| "mt ic (WordB # as) os cs b xs =
     (if (case b of [] \<Rightarrow> False | y # _ \<Rightarrow> is_word y)
         \<noteq> (case xs of [] \<Rightarrow> False | x # _ \<Rightarrow> is_word x)
      then mt ic as os cs b xs else None)"
| "mt ic (Bol # as) os cs b xs = (if b = [] then mt ic as os cs b xs else None)"
| "mt ic (Eol # as) os cs b xs =
     (if xs = [] \<or> xs = [CHR 0x0A] then mt ic as os cs b xs else None)"

definition lit :: "string \<Rightarrow> atom list" where
  "lit s = map Chr s"

definition quote :: cls where
  \<comment> \<open>the class of the two quote characters\<close>
  "quote = In [CHR 0x22, CHR 0x27]"

definition group :: "caps \<Rightarrow> nat \<Rightarrow> string" where
  \<comment> \<open>\<open>m.group(n)\<close> for a group that took part in the match\<close>
  "group cs n = (case map_of cs n of None \<Rightarrow> [] | Some g \<Rightarrow> g)"

definition re_match :: "bool \<Rightarrow> atom list \<Rightarrow> string \<Rightarrow> caps option" where
  \<comment> \<open>\<open>pattern.match(text)\<close>: a match at the start of the text only\<close>
  "re_match ic re text = map_option fst (mt ic re [] [] [] text)"

fun search :: "bool \<Rightarrow> atom list \<Rightarrow> string \<Rightarrow> string \<Rightarrow> (caps \<times> string \<times> string) option" where
  \<comment> \<open>the leftmost match at or after the position\<close>
  "search ic re b [] = mt ic re [] [] b []"
| "search ic re b (x # xs) =
     (case mt ic re [] [] b (x # xs) of
        Some r \<Rightarrow> Some r
      | None \<Rightarrow> search ic re (x # b) xs)"

definition re_search :: "bool \<Rightarrow> atom list \<Rightarrow> string \<Rightarrow> caps option" where
  \<comment> \<open>\<open>re.search(pattern, text)\<close>\<close>
  "re_search ic re text = map_option fst (search ic re [] text)"

subsection \<open>Replacement templates\<close>

text \<open>
  A replacement string is a template: \<open>re.sub\<close> parses its backslash escapes before it
  looks for any match (\<open>parse_template\<close> of CPython 3.12).  The exporter's patterns
  have no named groups, so every \<open>\\g<name>\<close> with a name that is not a decimal number
  raises.
\<close>

datatype py_error =
    RuntimeError string
  | TemplateError  \<comment> \<open>\<open>re.error\<close> or \<open>IndexError\<close> from a replacement template\<close>
  | FetchError string  \<comment> \<open>an exception of \<open>urlopen\<close> or \<open>read\<close>, with its message\<close>
  | OSError  \<comment> \<open>an \<open>OSError\<close> of the file system other than \<open>FileNotFoundError\<close>\<close>
  | OutsideTree  \<comment> \<open>a path that leaves the output directory through \<open>..\<close>: what the
      write does there is not modelled\<close>

datatype titem = TChr char | TGrp nat

definition is_digit :: "char \<Rightarrow> bool" where
  "is_digit c = (c \<in> set ''0123456789'')"

definition is_octdigit :: "char \<Rightarrow> bool" where
  "is_octdigit c = (c \<in> set ''01234567'')"

definition is_ascii_letter :: "char \<Rightarrow> bool" where
  "is_ascii_letter c =
     (c \<in> set ''abcdefghijklmnopqrstuvwxyzABCDEFGHIJKLMNOPQRSTUVWXYZ'')"

definition digit_val :: "char \<Rightarrow> nat" where
  "digit_val c = (case map_of (zip ''0123456789'' [0, 1, 2, 3, 4, 5, 6, 7, 8, 9]) c of
                    Some n \<Rightarrow> n | None \<Rightarrow> 0)"

definition num_val :: "nat \<Rightarrow> string \<Rightarrow> nat" where
  \<comment> \<open>\<open>int(s, base)\<close> on a string of digits\<close>
  "num_val base s = foldl (\<lambda>n c. base * n + digit_val c) 0 s"

definition escapes :: "char \<Rightarrow> char option" where
  "escapes = map_of [(CHR ''a'', CHR 0x07), (CHR ''b'', CHR 0x08), (CHR ''f'', CHR 0x0C),
                     (CHR ''n'', CHR 0x0A), (CHR ''r'', CHR 0x0D), (CHR ''t'', CHR 0x09),
                     (CHR ''v'', CHR 0x0B), (bslash, bslash)]"

definition tcons :: "titem list \<Rightarrow> py_error + titem list \<Rightarrow> py_error + titem list" where
  "tcons ts r = (case r of Inl e \<Rightarrow> Inl e | Inr us \<Rightarrow> Inr (ts @ us))"

definition addgroup :: "nat \<Rightarrow> nat \<Rightarrow> py_error + titem list \<Rightarrow> py_error + titem list" where
  \<comment> \<open>a group reference beyond the pattern's groups is an error\<close>
  "addgroup g index r = (if index > g then Inl TemplateError else tcons [TGrp index] r)"

function parse_template :: "nat \<Rightarrow> string \<Rightarrow> py_error + titem list" where
  "parse_template g [] = Inr []"
| "parse_template g (c # s) =
     (if c \<noteq> bslash then tcons [TChr c] (parse_template g s)
      else case s of
        [] \<Rightarrow> Inl TemplateError
      | d # s1 \<Rightarrow>
          if d = CHR ''g'' then
            (case s1 of
               [] \<Rightarrow> Inl TemplateError
             | l # s2 \<Rightarrow>
                 if l \<noteq> CHR ''<'' then Inl TemplateError
                 else if dropWhile (\<lambda>x. x \<noteq> CHR ''>'') s2 = [] then Inl TemplateError
                 else if takeWhile (\<lambda>x. x \<noteq> CHR ''>'') s2 = [] then Inl TemplateError
                 else if \<not> list_all is_digit (takeWhile (\<lambda>x. x \<noteq> CHR ''>'') s2)
                   then Inl TemplateError
                 else addgroup g (num_val 10 (takeWhile (\<lambda>x. x \<noteq> CHR ''>'') s2))
                        (parse_template g (tl (dropWhile (\<lambda>x. x \<noteq> CHR ''>'') s2))))
          else if d = CHR ''0'' then
            (case s1 of
               [] \<Rightarrow> Inr [TChr (CHR 0x00)]
             | e # s2 \<Rightarrow>
                 if \<not> is_octdigit e then tcons [TChr (CHR 0x00)] (parse_template g (e # s2))
                 else (case s2 of
                         [] \<Rightarrow> Inr [TChr (char_of (num_val 8 [e]))]
                       | f # s3 \<Rightarrow>
                           if \<not> is_octdigit f
                           then tcons [TChr (char_of (num_val 8 [e]))] (parse_template g (f # s3))
                           else tcons [TChr (char_of (num_val 8 [e, f]))] (parse_template g s3)))
          else if is_digit d then
            (case s1 of
               [] \<Rightarrow> addgroup g (num_val 10 [d]) (Inr [])
             | e # s2 \<Rightarrow>
                 if \<not> is_digit e then addgroup g (num_val 10 [d]) (parse_template g (e # s2))
                 else (case s2 of
                         [] \<Rightarrow> addgroup g (num_val 10 [d, e]) (Inr [])
                       | f # s3 \<Rightarrow>
                           if is_octdigit d \<and> is_octdigit e \<and> is_octdigit f
                           then (if num_val 8 [d, e, f] > 255 then Inl TemplateError
                                 else tcons [TChr (char_of (num_val 8 [d, e, f]))]
                                        (parse_template g s3))
                           else addgroup g (num_val 10 [d, e]) (parse_template g (f # s3))))
          else (case escapes d of
                  Some e \<Rightarrow> tcons [TChr e] (parse_template g s1)
                | None \<Rightarrow>
                    if is_ascii_letter d then Inl TemplateError
                    else tcons [TChr bslash, TChr d] (parse_template g s1)))"
  by pat_completeness auto
termination
proof (relation "measure (\<lambda>(g, s). length s)")
  show "wf (measure (\<lambda>(g :: nat, s :: string). length s))"
    by simp
next
  fix g :: nat and c l d :: char and s s1 s2 :: string
  have "length (tl (dropWhile (\<lambda>x. x \<noteq> CHR ''>'') s2)) \<le> length s2"
    using length_dropWhile_le [of "\<lambda>x. x \<noteq> CHR ''>''" s2] by simp
  then show "s = d # s1 \<Longrightarrow> s1 = l # s2 \<Longrightarrow>
        ((g, tl (dropWhile (\<lambda>x. x \<noteq> CHR ''>'') s2)), g, c # s)
        \<in> measure (\<lambda>(g, s). length s)"
    by simp
qed simp_all

fun expand_template :: "titem list \<Rightarrow> string \<Rightarrow> caps \<Rightarrow> string" where
  \<comment> \<open>the replacement for one match: the whole match is group 0\<close>
  "expand_template [] whole cs = []"
| "expand_template (TChr c # ts) whole cs = c # expand_template ts whole cs"
| "expand_template (TGrp n # ts) whole cs =
     (if n = 0 then whole else group cs n) @ expand_template ts whole cs"

subsection \<open>Substitution and iteration\<close>

text \<open>
  \<open>sub_scan\<close> is the loop of \<open>re.sub\<close>: it walks the text from the left, replaces each
  match and goes on after it; \<open>limit\<close> is the \<open>count\<close> argument (0 for no limit),
  \<open>n\<close> the number of replacements made and \<open>skip\<close> the number of characters of the
  last match still to pass.  \<open>count_scan\<close> is the number of replacements of the same
  loop, as \<open>re.subn\<close> returns it.  No pattern of the exporter matches the empty string.
\<close>

fun sub_scan :: "bool \<Rightarrow> atom list \<Rightarrow> titem list \<Rightarrow> nat \<Rightarrow> nat \<Rightarrow> nat \<Rightarrow> string \<Rightarrow> string
                 \<Rightarrow> string" where
  "sub_scan ic re tpl limit n skip b [] =
     (if skip = 0 \<and> (limit = 0 \<or> n < limit)
      then (case mt ic re [] [] b [] of
              None \<Rightarrow> []
            | Some (cs, b', r) \<Rightarrow> expand_template tpl [] cs)
      else [])"
| "sub_scan ic re tpl limit n skip b (x # xs) =
     (if skip > 0 then sub_scan ic re tpl limit n (skip - 1) (x # b) xs
      else if limit \<noteq> 0 \<and> limit \<le> n then x # xs
      else case mt ic re [] [] b (x # xs) of
          None \<Rightarrow> x # sub_scan ic re tpl limit n 0 (x # b) xs
        | Some (cs, b', r) \<Rightarrow>
            expand_template tpl (take (length b' - length b) (x # xs)) cs @
            (if length b' - length b = 0
             then x # sub_scan ic re tpl limit (Suc n) 0 (x # b) xs
             else sub_scan ic re tpl limit (Suc n) (length b' - length b - 1) (x # b) xs))"

fun count_scan :: "bool \<Rightarrow> atom list \<Rightarrow> nat \<Rightarrow> nat \<Rightarrow> nat \<Rightarrow> string \<Rightarrow> string \<Rightarrow> nat" where
  "count_scan ic re limit n skip b [] =
     (if skip = 0 \<and> (limit = 0 \<or> n < limit)
      then (case mt ic re [] [] b [] of None \<Rightarrow> n | Some m \<Rightarrow> Suc n)
      else n)"
| "count_scan ic re limit n skip b (x # xs) =
     (if skip > 0 then count_scan ic re limit n (skip - 1) (x # b) xs
      else if limit \<noteq> 0 \<and> limit \<le> n then n
      else case mt ic re [] [] b (x # xs) of
          None \<Rightarrow> count_scan ic re limit n 0 (x # b) xs
        | Some (cs, b', r) \<Rightarrow>
            count_scan ic re limit (Suc n) (length b' - length b - 1) (x # b) xs)"

definition re_sub :: "bool \<Rightarrow> nat \<Rightarrow> atom list \<Rightarrow> string \<Rightarrow> nat \<Rightarrow> string \<Rightarrow> py_error + string" where
  \<comment> \<open>\<open>re.sub(pattern, repl, text, count)\<close> for a pattern with \<open>g\<close> groups\<close>
  "re_sub ic g re repl limit text =
     (case parse_template g repl of
        Inl e \<Rightarrow> Inl e
      | Inr tpl \<Rightarrow> Inr (sub_scan ic re tpl limit 0 0 [] text))"

definition re_subn :: "bool \<Rightarrow> nat \<Rightarrow> atom list \<Rightarrow> string \<Rightarrow> nat \<Rightarrow> string
                       \<Rightarrow> py_error + string \<times> nat" where
  \<comment> \<open>\<open>re.subn(pattern, repl, text, count)\<close>\<close>
  "re_subn ic g re repl limit text =
     (case parse_template g repl of
        Inl e \<Rightarrow> Inl e
      | Inr tpl \<Rightarrow> Inr (sub_scan ic re tpl limit 0 0 [] text,
                        count_scan ic re limit 0 0 [] text))"

fun find_scan :: "bool \<Rightarrow> atom list \<Rightarrow> nat \<Rightarrow> string \<Rightarrow> string \<Rightarrow> caps list" where
  \<comment> \<open>\<open>pattern.finditer(text)\<close>: the captures of the successive matches\<close>
  "find_scan ic re skip b [] =
     (if skip = 0
      then (case mt ic re [] [] b [] of None \<Rightarrow> [] | Some (cs, b', r) \<Rightarrow> [cs])
      else [])"
| "find_scan ic re skip b (x # xs) =
     (if skip > 0 then find_scan ic re (skip - 1) (x # b) xs
      else case mt ic re [] [] b (x # xs) of
          None \<Rightarrow> find_scan ic re 0 (x # b) xs
        | Some (cs, b', r) \<Rightarrow>
            cs # find_scan ic re (length b' - length b - 1) (x # b) xs)"

definition bindE :: "'e + 'a \<Rightarrow> ('a \<Rightarrow> 'e + 'b) \<Rightarrow> 'e + 'b" where
  \<comment> \<open>sequencing: an exception of the first step ends the computation\<close>
  "bindE m f = (case m of Inl e \<Rightarrow> Inl e | Inr x \<Rightarrow> f x)"

text \<open>
  For the properties of the edits: a text that begins with a literal, letter case aside,
  and a text that holds it somewhere.
\<close>

definition ci_prefix :: "string \<Rightarrow> string \<Rightarrow> bool" where
  "ci_prefix p t = (length p \<le> length t \<and> map lower (take (length p) t) = map lower p)"

fun occurs_ci :: "string \<Rightarrow> string \<Rightarrow> bool" where
  "occurs_ci p [] = (p = [])"
| "occurs_ci p (x # xs) = (ci_prefix p (x # xs) \<or> occurs_ci p xs)"

section \<open>Slug discovery\<close>

definition is_linebreak :: "char \<Rightarrow> bool" where
  \<comment> \<open>the line boundaries of \<open>str.splitlines\<close> other than a carriage return\<close>
  "is_linebreak c = (c \<in> set [CHR 0x0A, CHR 0x0B, CHR 0x0C, CHR 0x1C, CHR 0x1D, CHR 0x1E,
                                CHR 0x85])"

fun splitlines_from :: "string \<Rightarrow> string \<Rightarrow> string list" where
  \<comment> \<open>\<open>cur\<close> is the current line, reversed; a carriage return and a line feed after it
      are one boundary\<close>
  "splitlines_from cur [] = (if cur = [] then [] else [rev cur])"
| "splitlines_from cur (c # s) =
     (if c = CHR 0x0D
      then (case s of
              [] \<Rightarrow> [rev cur]
            | d # s' \<Rightarrow> if d = CHR 0x0A then rev cur # splitlines_from [] s'
                        else rev cur # splitlines_from [] (d # s'))
      else if is_linebreak c then rev cur # splitlines_from [] s
      else splitlines_from (c # cur) s)"

definition splitlines :: "string \<Rightarrow> string list" where
  "splitlines s = splitlines_from [] s"

definition slug_chars :: string where
  "slug_chars = ''ABCDEFGHIJKLMNOPQRSTUVWXYZabcdefghijklmnopqrstuvwxyz0123456789_-''"

definition slug_re :: "atom list" where
  \<comment> \<open>\<open>^\\s*slug:\\s*([A-Za-z0-9_-]+)\\s*$\<close>\<close>
  "slug_re = [Bol, Star Space] @ lit ''slug:'' @
             [Star Space, Open 1, Plus (In slug_chars), Close 1, Star Space, Eol]"

definition slug_of_line :: "string \<Rightarrow> string option" where
  \<comment> \<open>\<open>m = slug_re.match(line)\<close> and \<open>m.group(1)\<close>\<close>
  "slug_of_line line = map_option (\<lambda>cs. group cs 1) (re_match False slug_re line)"

text \<open>
  What reading a file gives: its text as \<open>read_text\<close> returns it, a
  \<open>FileNotFoundError\<close>, or another \<open>OSError\<close> (no permission, a directory).  A
  configuration directory is its listing, name by name, or does not exist.
\<close>

datatype read_result = Content string | Missing | Unreadable

datatype config_dir = NoDir | Dir "(string \<times> read_result) list"

definition endswith :: "string \<Rightarrow> string \<Rightarrow> bool" where
  "endswith s p = (length p \<le> length s \<and> drop (length s - length p) s = p)"

definition glob_yml :: "config_dir \<Rightarrow> (string \<times> read_result) list" where
  \<comment> \<open>\<open>sorted(config_dir.glob("*.yml"))\<close>: nothing for a directory that does not exist\<close>
  "glob_yml d = (case d of
                   NoDir \<Rightarrow> []
                 | Dir entries \<Rightarrow> sort_key fst (filter (\<lambda>e. endswith (fst e) ''.yml'') entries))"

fun scan_lines :: "string list \<Rightarrow> string list \<times> string set \<Rightarrow> string list \<times> string set" where
  \<comment> \<open>the inner loop, on the pair of \<open>slugs\<close> and \<open>seen\<close>\<close>
  "scan_lines [] (slugs, seen) = (slugs, seen)"
| "scan_lines (line # ls) (slugs, seen) =
     (case slug_of_line line of
        None \<Rightarrow> scan_lines ls (slugs, seen)
      | Some slug \<Rightarrow>
          if slug \<in> seen then scan_lines ls (slugs, seen)
          else scan_lines ls (slugs @ [slug], insert slug seen))"

fun scan_files :: "(string \<times> read_result) list \<Rightarrow> string list \<times> string set
                   \<Rightarrow> py_error + string list \<times> string set" where
  \<comment> \<open>the outer loop: a missing file is passed over, another read error is not caught\<close>
  "scan_files [] acc = Inr acc"
| "scan_files ((name, Content text) # fs) acc = scan_files fs (scan_lines (splitlines text) acc)"
| "scan_files ((name, Missing) # fs) acc = scan_files fs acc"
| "scan_files ((name, Unreadable) # fs) acc = Inl OSError"

definition discover_slugs :: "config_dir \<Rightarrow> py_error + string list" where
  "discover_slugs config =
     (case scan_files (glob_yml config) ([], {}) of
        Inl e \<Rightarrow> Inl e
      | Inr (slugs, seen) \<Rightarrow>
          Inr (if ''home'' \<in> seen then ''home'' # filter (\<lambda>s. s \<noteq> ''home'') slugs else slugs))"

text \<open>
  For the properties of discovery: the slugs a file holds, line by line, the slugs of a
  directory in the order discovery meets them, and a list without its repetitions, the
  first occurrence of each element kept.
\<close>

definition file_slugs :: "read_result \<Rightarrow> string list" where
  "file_slugs r = (case r of
                     Content text \<Rightarrow> List.map_filter slug_of_line (splitlines text)
                   | Missing \<Rightarrow> []
                   | Unreadable \<Rightarrow> [])"

definition slug_occurrences :: "config_dir \<Rightarrow> string list" where
  "slug_occurrences d = concat (map (\<lambda>e. file_slugs (snd e)) (glob_yml d))"

definition first_occurrences :: "'a list \<Rightarrow> 'a list" where
  "first_occurrences xs = rev (remdups (rev xs))"

definition readable :: "config_dir \<Rightarrow> bool" where
  \<comment> \<open>no declaration file of the directory raises an error other than
      \<open>FileNotFoundError\<close> when read\<close>
  "readable d = list_all (\<lambda>e. snd e \<noteq> Unreadable) (glob_yml d)"

definition no_declarations :: "config_dir \<Rightarrow> bool" where
  \<comment> \<open>the directory does not exist, or each of its declaration files is missing when
      it is read\<close>
  "no_declarations d = (case d of
                          NoDir \<Rightarrow> True
                        | Dir entries \<Rightarrow>
                            list_all (\<lambda>e. endswith (fst e) ''.yml'' \<longrightarrow> snd e = Missing) entries)"

fun add_new :: "'a list \<Rightarrow> 'a list \<Rightarrow> 'a list" where
  \<comment> \<open>the two loops of discovery on the list of slugs alone\<close>
  "add_new acc [] = acc"
| "add_new acc (x # xs) = (if x \<in> set acc then add_new acc xs else add_new (acc @ [x]) xs)"

section \<open>Shell parsing and content injection\<close>

definition bundle_re :: "atom list" where
  \<comment> \<open>\<open><link[^>]+href=['"](/static/[^'"]+/css/bundle\\.css)['"][^>]*>\<close>\<close>
  "bundle_re = lit ''<link'' @ [Plus (NotIn ''>'')] @ lit ''href='' @ [Cls quote, Open 1] @
               lit ''/static/'' @ [Plus (NotIn [CHR 0x27, CHR 0x22])] @ lit ''/css/bundle.css'' @
               [Close 1, Cls quote, Star (NotIn ''>''), Chr CHR ''>'']"

definition extract_bundle_css_path :: "string \<Rightarrow> py_error + string" where
  "extract_bundle_css_path shell_html =
     (case re_search True bundle_re shell_html of
        None \<Rightarrow> Inl (RuntimeError ''Could not find bundle.css path in page HTML'')
      | Some cs \<Rightarrow> Inr (group cs 1))"

definition placeholder_re :: "atom list" where
  \<comment> \<open>\<open>(<div[^>]*\\bid=["']page-content["'][^>]*>)\\s*</div>\<close>\<close>
  "placeholder_re = [Open 1] @ lit ''<div'' @ [Star (NotIn ''>''), WordB] @ lit ''id='' @
                    [Cls quote] @ lit ''page-content'' @
                    [Cls quote, Star (NotIn ''>''), Chr CHR ''>'', Close 1, Star Space] @
                    lit ''</div>''"

definition main_class_re :: "atom list" where
  \<comment> \<open>\<open>(<main[^>]*\\bclass=["'])page(\\b[^"']*["'][^>]*>)\<close>\<close>
  "main_class_re = [Open 1] @ lit ''<main'' @ [Star (NotIn ''>''), WordB] @ lit ''class='' @
                   [Cls quote, Close 1] @ lit ''page'' @
                   [Open 2, WordB, Star (NotIn [CHR 0x22, CHR 0x27]), Cls quote,
                    Star (NotIn ''>''), Chr CHR ''>'', Close 2]"

definition aria_busy_re :: "atom list" where
  \<comment> \<open>\<open>(\\baria-busy=["'])true(["'])\<close>\<close>
  "aria_busy_re = [Open 1, WordB] @ lit ''aria-busy='' @ [Cls quote, Close 1] @ lit ''true'' @
                  [Open 2, Cls quote, Close 2]"

definition page_js_re :: "atom list" where
  \<comment> \<open>\<open><script[^>]+src=['"]/static/[^'"]+/js/page\\.js['"][^>]*></script>\\s*\<close>\<close>
  "page_js_re = lit ''<script'' @ [Plus (NotIn ''>'')] @ lit ''src='' @ [Cls quote] @
                lit ''/static/'' @ [Plus (NotIn [CHR 0x27, CHR 0x22])] @ lit ''/js/page.js'' @
                [Cls quote, Star (NotIn ''>'')] @ lit ''></script>'' @ [Star Space]"

definition inject_placeholder :: "string \<Rightarrow> string \<Rightarrow> py_error + string" where
  \<comment> \<open>step 1: the replacement string is \<open>\\1\<close>, the content and \<open></div>\<close>\<close>
  "inject_placeholder shell_html content_html =
     bindE (re_subn True 1 placeholder_re ([bslash, CHR ''1''] @ content_html @ ''</div>'') 1
              shell_html)
       (\<lambda>(injected, n).
          if n \<noteq> 1
          then Inl (RuntimeError ''Failed to inject page content (page-content div not found)'')
          else Inr injected)"

definition mark_content_ready :: "string \<Rightarrow> py_error + string" where
  \<comment> \<open>step 2, first edit: the class of the main container\<close>
  "mark_content_ready injected =
     re_sub True 2 main_class_re
       ([bslash, CHR ''1''] @ ''page content-ready'' @ [bslash, CHR ''2'']) 1 injected"

definition flip_aria_busy :: "string \<Rightarrow> py_error + string" where
  \<comment> \<open>step 2, second edit: the busy attribute\<close>
  "flip_aria_busy injected =
     re_sub True 2 aria_busy_re ([bslash, CHR ''1''] @ ''false'' @ [bslash, CHR ''2'']) 1 injected"

definition busy_toggle :: "string \<Rightarrow> py_error + string" where
  "busy_toggle injected = bindE (mark_content_ready injected) flip_aria_busy"

definition remove_page_js :: "string \<Rightarrow> py_error + string" where
  \<comment> \<open>step 3\<close>
  "remove_page_js injected = re_sub True 0 page_js_re [] 1 injected"

definition inject_content :: "string \<Rightarrow> string \<Rightarrow> py_error + string" where
  "inject_content shell_html content_html =
     bindE (inject_placeholder shell_html content_html)
       (\<lambda>injected. bindE (busy_toggle injected) remove_page_js)"

section \<open>Base-path rewriting\<close>

definition rewrite_attr :: "string \<Rightarrow> string \<Rightarrow> string \<Rightarrow> py_error + string" where
  \<comment> \<open>the body of the loop over the attributes: the double-quoted form, then the
      single-quoted one\<close>
  "rewrite_attr base_path attr text =
     bindE (re_sub False 0 (lit (attr @ [CHR ''='', CHR 0x22, CHR ''/'']) @ [NotAhead CHR ''/''])
              (attr @ [CHR ''='', CHR 0x22] @ base_path @ ''/'') 0 text)
       (\<lambda>text. re_sub False 0 (lit (attr @ [CHR ''='', CHR 0x27, CHR ''/'']) @ [NotAhead CHR ''/''])
                 (attr @ [CHR ''='', CHR 0x27] @ base_path @ ''/'') 0 text)"

fun rewrite_attrs :: "string \<Rightarrow> string list \<Rightarrow> string \<Rightarrow> py_error + string" where
  "rewrite_attrs base_path [] text = Inr text"
| "rewrite_attrs base_path (attr # attrs) text =
     bindE (rewrite_attr base_path attr text) (rewrite_attrs base_path attrs)"

definition manifest_re :: "atom list" where
  \<comment> \<open>\<open>href=(['"])manifest\\.json\<close>\<close>
  "manifest_re = lit ''href='' @ [Open 1, Cls quote, Close 1] @ lit ''manifest.json''"

definition rewrite_base_paths :: "string \<Rightarrow> string \<Rightarrow> py_error + string" where
  "rewrite_base_paths text base_path =
     (if base_path = [] then Inr text
      else
        bindE (rewrite_attrs base_path [''href'', ''src'', ''action''] text) (\<lambda>text.
        bindE (re_sub False 0 (lit (''url('' @ [CHR 0x27, CHR ''/'']) @ [NotAhead CHR ''/''])
                 (''url('' @ [CHR 0x27] @ base_path @ ''/'') 0 text) (\<lambda>text.
        bindE (re_sub False 0 (lit (''url('' @ [CHR 0x22, CHR ''/'']) @ [NotAhead CHR ''/''])
                 (''url('' @ [CHR 0x22] @ base_path @ ''/'') 0 text) (\<lambda>text.
        re_sub True 1 manifest_re
          (''href='' @ [bslash, CHR ''1''] @ base_path @ ''/manifest.json'') 0 text))))"

section \<open>Base-path normalisation\<close>

definition normalize_base_path :: "string \<Rightarrow> string" where
  "normalize_base_path base_path =
     (let bp = strip base_path in
      if bp = [] \<or> bp = ''/'' then []
      else rstrip_slash (if \<not> startswith bp ''/'' then ''/'' @ bp else bp))"

section \<open>Paths\<close>

fun split_from :: "string \<Rightarrow> string \<Rightarrow> string list" where
  \<comment> \<open>\<open>cur\<close> is the current component, reversed\<close>
  "split_from cur [] = [rev cur]"
| "split_from cur (c # s) =
     (if c = CHR ''/'' then rev cur # split_from [] s else split_from (c # cur) s)"

definition split_slash :: "string \<Rightarrow> string list" where
  \<comment> \<open>\<open>s.split("/")\<close>\<close>
  "split_slash s = split_from [] s"

fun join_slash :: "string list \<Rightarrow> string" where
  \<comment> \<open>\<open>"/".join(comps)\<close>\<close>
  "join_slash [] = []"
| "join_slash [x] = x"
| "join_slash (x # y # zs) = x @ ''/'' @ join_slash (y # zs)"

definition pure_parts :: "string \<Rightarrow> string list" where
  \<comment> \<open>the components \<open>pathlib\<close> keeps: not the empty ones, not \<open>.\<close>\<close>
  "pure_parts s = filter (\<lambda>c. c \<noteq> [] \<and> c \<noteq> ''.'') (split_slash s)"

definition path_root :: "string \<Rightarrow> string" where
  \<comment> \<open>the root of a POSIX path: exactly two leading slashes are kept\<close>
  "path_root s = (if \<not> startswith s ''/'' then []
                  else if length s - length (lstrip_slash s) = 2 then ''//'' else ''/'')"

definition parent_str :: "string \<Rightarrow> string" where
  \<comment> \<open>\<open>str(Path(s).parent)\<close>\<close>
  "parent_str s =
     (let parts = pure_parts s;
          p = path_root s @ join_slash (if parts = [] then [] else butlast parts)
      in if p = [] then ''.'' else p)"

definition posix_join :: "string \<Rightarrow> string \<Rightarrow> string" where
  \<comment> \<open>\<open>posixpath.join(a, b)\<close>\<close>
  "posix_join a b = (if startswith b ''/'' then b
                     else if a = [] \<or> endswith a ''/'' then a @ b
                     else a @ ''/'' @ b)"

fun norm_comps :: "nat \<Rightarrow> string list \<Rightarrow> string list \<Rightarrow> string list" where
  \<comment> \<open>the loop of \<open>posixpath.normpath\<close> over the components\<close>
  "norm_comps i [] new_comps = new_comps"
| "norm_comps i (part # comps) new_comps =
     (if part = [] \<or> part = ''.'' then norm_comps i comps new_comps
      else if part \<noteq> ''..'' \<or> (i = 0 \<and> new_comps = [])
              \<or> (new_comps \<noteq> [] \<and> last new_comps = ''..'')
        then norm_comps i comps (new_comps @ [part])
      else if new_comps \<noteq> [] then norm_comps i comps (butlast new_comps)
      else norm_comps i comps new_comps)"

definition normpath :: "string \<Rightarrow> string" where
  \<comment> \<open>\<open>posixpath.normpath(path)\<close>\<close>
  "normpath path =
     (if path = [] then ''.''
      else
        let i = (if \<not> startswith path ''/'' then 0
                 else if startswith path ''//'' \<and> \<not> startswith path ''///'' then 2 else 1);
            p = replicate i (CHR ''/'') @ join_slash (norm_comps i (split_slash path) [])
        in if p = [] then ''.'' else p)"

definition path_suffix :: "string \<Rightarrow> string" where
  \<comment> \<open>\<open>Path.suffix\<close> of a file name: from the last dot, when that dot is neither the
      first nor the last character\<close>
  "path_suffix name =
     (let r = takeWhile (\<lambda>c. c \<noteq> CHR ''.'') (rev name)
      in if CHR ''.'' \<notin> set name \<or> r = [] \<or> length r + 1 = length name then []
         else CHR ''.'' # rev r)"

section \<open>The world of a run\<close>

text \<open>
  The output tree lists what is below the output directory: the path of each file and
  directory, as its components, with the file's bytes or the mark of a directory.  The
  output directory itself is a directory.  The model is that of a POSIX system without
  symbolic links, on which a write fails only for a reason the tree shows.  The server
  is a function from the number of requests made so far and the URL requested to the
  bytes of the response, or to the message of the exception \<open>urlopen\<close> raises.
  \<open>expired\<close> tells, after that many requests, whether the readiness timeout has
  passed.  \<open>decode\<close> and \<open>encode\<close> are the UTF-8 codec and \<open>urljoin\<close> is
  \<open>urllib.parse.urljoin\<close>: the exporter's logic does not depend on what they compute.
  The assets are the files and directories below \<open>assets/\<close>, if that is a directory.
\<close>

datatype node = File string | Folder

type_synonym tree = "(string list \<times> node) list"

record env =
  config :: config_dir
  assets :: "tree option"
  net :: "nat \<Rightarrow> string \<Rightarrow> string + string"
  expired :: "nat \<Rightarrow> bool"
  decode :: "string \<Rightarrow> string"
  encode :: "string \<Rightarrow> string"
  urljoin :: "string \<Rightarrow> string \<Rightarrow> string"

record world =
  out :: tree
  reqs :: "string list"

record args =
  arg_glance_url :: string
  arg_base_path :: string

definition fetch_bytes :: "env \<Rightarrow> string \<Rightarrow> world \<Rightarrow> (py_error + string) \<times> world" where
  "fetch_bytes e url w =
     (case net e (length (reqs w)) url of
        Inl cause \<Rightarrow> (Inl (FetchError cause), w\<lparr>reqs := reqs w @ [url]\<rparr>)
      | Inr data \<Rightarrow> (Inr data, w\<lparr>reqs := reqs w @ [url]\<rparr>))"

definition fetch_text :: "env \<Rightarrow> string \<Rightarrow> world \<Rightarrow> (py_error + string) \<times> world" where
  "fetch_text e url w =
     (case fetch_bytes e url w of
        (Inl err, w') \<Rightarrow> (Inl err, w')
      | (Inr data, w') \<Rightarrow> (Inr (decode e data), w'))"

fun mkdirs :: "string list \<Rightarrow> string list \<Rightarrow> tree \<Rightarrow> py_error option \<times> string list \<times> tree" where
  \<comment> \<open>\<open>Path.mkdir(parents=True, exist_ok=True)\<close>: from the directory \<open>cur\<close>, each
      component is entered, and made first where it is missing; a file in the way is
      an error.  The result holds the directory reached.\<close>
  "mkdirs cur [] t = (None, cur, t)"
| "mkdirs cur (c # cs) t =
     (if c = ''..''
      then (if cur = [] then (Some OutsideTree, cur, t) else mkdirs (butlast cur) cs t)
      else (case map_of t (cur @ [c]) of
              Some (File data) \<Rightarrow> (Some OSError, cur, t)
            | Some Folder \<Rightarrow> mkdirs (cur @ [c]) cs t
            | None \<Rightarrow> mkdirs (cur @ [c]) cs (t @ [(cur @ [c], Folder)])))"

definition write_bytes :: "string list \<Rightarrow> string \<Rightarrow> world \<Rightarrow> py_error option \<times> world" where
  \<comment> \<open>\<open>_write_bytes\<close>: the parent directories are made, then the file is written; a
      directory in the place of the file is an error\<close>
  "write_bytes path data w =
     (if path = [] then (Some OSError, w)
      else (case mkdirs [] (butlast path) (out w) of
              (Some err, cur, t) \<Rightarrow> (Some err, w\<lparr>out := t\<rparr>)
            | (None, cur, t) \<Rightarrow>
                if last path = ''..'' then (Some OSError, w\<lparr>out := t\<rparr>)
                else (case map_of t (cur @ [last path]) of
                        Some Folder \<Rightarrow> (Some OSError, w\<lparr>out := t\<rparr>)
                      | Some (File old) \<Rightarrow>
                          (None, w\<lparr>out := AList.update (cur @ [last path]) (File data) t\<rparr>)
                      | None \<Rightarrow>
                          (None, w\<lparr>out := AList.update (cur @ [last path]) (File data) t\<rparr>))))"

definition write_text :: "env \<Rightarrow> string list \<Rightarrow> string \<Rightarrow> world \<Rightarrow> py_error option \<times> world" where
  "write_text e path data w = write_bytes path (encode e data) w"

fun universal_newlines :: "string \<Rightarrow> string" where
  \<comment> \<open>what reading a file in text mode does to its line ends\<close>
  "universal_newlines [] = []"
| "universal_newlines (c # s) =
     (if c = CHR 0x0D
      then (case s of
              [] \<Rightarrow> [CHR 0x0A]
            | d # s' \<Rightarrow> if d = CHR 0x0A then CHR 0x0A # universal_newlines s'
                        else CHR 0x0A # universal_newlines (d # s'))
      else c # universal_newlines s)"

definition read_text :: "env \<Rightarrow> string \<Rightarrow> string" where
  \<comment> \<open>\<open>p.read_text(encoding="utf-8", errors="replace")\<close> on the bytes of a file\<close>
  "read_text e data = universal_newlines (decode e data)"

section \<open>Static dependency resolution\<close>

definition url_re :: "atom list" where
  \<comment> \<open>\<open>url\\(\\s*(['"]?)([^'"\\)]+)\\1\\s*\\)\<close>\<close>
  "url_re = lit ''url('' @
            [Star Space, Open 1, Opt quote, Close 1,
             Open 2, Plus (NotIn [CHR 0x27, CHR 0x22, CHR '')'']), Close 2,
             Backref 1, Star Space, Chr CHR '')'']"

definition css_dir_of :: "string \<Rightarrow> string" where
  "css_dir_of bundle_css_path = ''/'' @ lstrip_slash (parent_str bundle_css_path)"

definition add_ref :: "string \<Rightarrow> string set \<Rightarrow> string \<Rightarrow> string set" where
  \<comment> \<open>the body of the loop over the matches, on the stripped second group\<close>
  "add_ref css_dir refs ref =
     (if ref = [] \<or> startswith ref ''data:'' then refs
      else if startswith ref ''http://'' \<or> startswith ref ''https://'' then refs
      else if startswith ref ''/'' then insert ref refs
      else
        let resolved = normpath (posix_join css_dir ref)
        in insert (if \<not> startswith resolved ''/'' then ''/'' @ resolved else resolved) refs)"

definition url_refs :: "string \<Rightarrow> string list" where
  \<comment> \<open>the references of the matches, in the order of the text: \<open>m.group(2).strip()\<close>\<close>
  "url_refs css_text = map (\<lambda>cs. strip (group cs 2)) (find_scan False url_re 0 [] css_text)"

definition css_refs :: "string \<Rightarrow> string \<Rightarrow> string set" where
  "css_refs bundle_css_path css_text =
     foldl (add_ref (css_dir_of bundle_css_path)) {} (url_refs css_text)"

definition ref_url :: "env \<Rightarrow> string \<Rightarrow> string \<Rightarrow> string" where
  \<comment> \<open>\<open>urljoin(glance_url.rstrip("/") + "/", ref.lstrip("/"))\<close>\<close>
  "ref_url e glance_url ref = urljoin e (rstrip_slash glance_url @ ''/'') (lstrip_slash ref)"

fun download_refs :: "env \<Rightarrow> string \<Rightarrow> string list \<Rightarrow> world \<Rightarrow> py_error option \<times> world" where
  \<comment> \<open>the loop over the sorted references: the first failure ends the run\<close>
  "download_refs e glance_url [] w = (None, w)"
| "download_refs e glance_url (ref # refs) w =
     (case fetch_bytes e (ref_url e glance_url ref) w of
        (Inl err, w') \<Rightarrow>
          (Some (RuntimeError (''Failed to download static dependency '' @ ref @ '' from ''
                               @ ref_url e glance_url ref @ '': ''
                               @ (case err of FetchError cause \<Rightarrow> cause | _ \<Rightarrow> []))), w')
      | (Inr data, w') \<Rightarrow>
          (case write_bytes (pure_parts (lstrip_slash ref)) data w' of
             (Some err, w'') \<Rightarrow> (Some err, w'')
           | (None, w'') \<Rightarrow> download_refs e glance_url refs w''))"

definition download_static_css_and_deps :: "env \<Rightarrow> string \<Rightarrow> string \<Rightarrow> world
                                            \<Rightarrow> py_error option \<times> world" where
  "download_static_css_and_deps e glance_url bundle_css_path w =
     (case fetch_bytes e (ref_url e glance_url bundle_css_path) w of
        (Inl err, w') \<Rightarrow> (Some err, w')
      | (Inr css_bytes, w') \<Rightarrow>
          (case write_bytes (pure_parts (lstrip_slash bundle_css_path)) css_bytes w' of
             (Some err, w'') \<Rightarrow> (Some err, w'')
           | (None, w'') \<Rightarrow>
               download_refs e glance_url
                 (sorted_list_of_set (css_refs bundle_css_path (decode e css_bytes))) w''))"

section \<open>The run\<close>

datatype outcome = Exit nat | Uncaught py_error

definition exit_status :: "outcome \<Rightarrow> nat" where
  \<comment> \<open>the status of the process: an uncaught exception ends it with status 1\<close>
  "exit_status r = (case r of Exit n \<Rightarrow> n | Uncaught err \<Rightarrow> 1)"

partial_function (option) wait_ready :: "env \<Rightarrow> string \<Rightarrow> world \<Rightarrow> (bool \<times> world) option" where
  \<comment> \<open>the readiness loop: true when the probe is answered, false when the timeout has
      passed after a failed probe\<close>
  "wait_ready e url w =
     (case fetch_bytes e url w of
        (Inr data, w') \<Rightarrow> Some (True, w')
      | (Inl err, w') \<Rightarrow>
          if expired e (length (reqs w')) then Some (False, w') else wait_ready e url w')"

fun build_pages :: "env \<Rightarrow> string \<Rightarrow> string list \<Rightarrow> world \<Rightarrow> py_error option \<times> world" where
  \<comment> \<open>the loop over the slugs; a slug is one path component, as discovery matches it\<close>
  "build_pages e glance_url [] w = (None, w)"
| "build_pages e glance_url (slug # slugs) w =
     (case fetch_text e (glance_url @ ''/'' @ slug) w of
        (Inl err, w1) \<Rightarrow> (Some err, w1)
      | (Inr shell_html, w1) \<Rightarrow>
          (case fetch_text e (glance_url @ ''/api/pages/'' @ slug @ ''/content/'') w1 of
             (Inl err, w2) \<Rightarrow> (Some err, w2)
           | (Inr content_html, w2) \<Rightarrow>
               (case inject_content shell_html content_html of
                  Inl err \<Rightarrow> (Some err, w2)
                | Inr page_html \<Rightarrow>
                    (case write_text e (pure_parts slug @ [''index.html'']) page_html w2 of
                       (Some err, w3) \<Rightarrow> (Some err, w3)
                     | (None, w3) \<Rightarrow>
                         if slug = ''home''
                         then (case write_text e [''index.html''] page_html w3 of
                                 (Some err, w4) \<Rightarrow> (Some err, w4)
                               | (None, w4) \<Rightarrow> build_pages e glance_url slugs w4)
                         else build_pages e glance_url slugs w3))))"

definition is_html_or_css :: "string list \<Rightarrow> bool" where
  \<comment> \<open>\<open>p.suffix.lower() in (".html", ".css")\<close>\<close>
  "is_html_or_css path =
     (path \<noteq> [] \<and> map lower (path_suffix (last path)) \<in> {''.html'', ''.css''})"

fun rewrite_files :: "env \<Rightarrow> string \<Rightarrow> tree \<Rightarrow> py_error option \<times> tree" where
  \<comment> \<open>the loop over the output tree: directories and other files are passed over; an
      exception leaves the files after the failing one as they are\<close>
  "rewrite_files e base_path [] = (None, [])"
| "rewrite_files e base_path ((path, Folder) # t) =
     (case rewrite_files e base_path t of (r, t') \<Rightarrow> (r, (path, Folder) # t'))"
| "rewrite_files e base_path ((path, File data) # t) =
     (if \<not> is_html_or_css path
      then (case rewrite_files e base_path t of (r, t') \<Rightarrow> (r, (path, File data) # t'))
      else (case rewrite_base_paths (read_text e data) base_path of
              Inl err \<Rightarrow> (Some err, (path, File data) # t)
            | Inr rewritten \<Rightarrow>
                (case rewrite_files e base_path t of
                   (r, t') \<Rightarrow>
                     (r, (path, File (if rewritten \<noteq> read_text e data then encode e rewritten
                                      else data)) # t'))))"

definition copy_assets :: "tree \<Rightarrow> world \<Rightarrow> world" where
  \<comment> \<open>\<open>shutil.copytree(repo_assets, out_dir / "assets")\<close> into the emptied output
      directory\<close>
  "copy_assets a w =
     w\<lparr>out := out w @ ([''assets''], Folder) # map (\<lambda>(p, n). (''assets'' # p, n)) a\<rparr>"

definition fetch_manifest :: "env \<Rightarrow> string \<Rightarrow> world \<Rightarrow> world" where
  \<comment> \<open>any exception of the download or of the write is passed over\<close>
  "fetch_manifest e glance_url w =
     (case fetch_bytes e (glance_url @ ''/manifest.json'') w of
        (Inl err, w') \<Rightarrow> w'
      | (Inr manifest, w') \<Rightarrow> snd (write_bytes [''manifest.json''] manifest w'))"

definition export_site :: "env \<Rightarrow> string \<Rightarrow> string \<Rightarrow> string list \<Rightarrow> world \<Rightarrow> outcome \<times> world" where
  \<comment> \<open>the run from the wipe of the output directory on\<close>
  "export_site e glance_url base_path slugs w0 =
     (let w1 = w0\<lparr>out := []\<rparr> in
      case assets e of
        None \<Rightarrow> (Exit 4, w1)
      | Some a \<Rightarrow>
          let w2 = fetch_manifest e glance_url (copy_assets a w1) in
          case fetch_text e (glance_url @ (if ''home'' \<in> set slugs then ''/home''
                                            else ''/'' @ hd slugs)) w2 of
            (Inl err, w3) \<Rightarrow> (Uncaught err, w3)
          | (Inr sample_shell, w3) \<Rightarrow>
              (case extract_bundle_css_path sample_shell of
                 Inl err \<Rightarrow> (Uncaught err, w3)
               | Inr bundle_css_path \<Rightarrow>
                   (case download_static_css_and_deps e glance_url bundle_css_path w3 of
                      (Some err, w4) \<Rightarrow> (Uncaught err, w4)
                    | (None, w4) \<Rightarrow>
                        (case build_pages e glance_url slugs w4 of
                           (Some err, w5) \<Rightarrow> (Uncaught err, w5)
                         | (None, w5) \<Rightarrow>
                             (case rewrite_files e base_path (out w5) of
                                (Some err, t) \<Rightarrow> (Uncaught err, w5\<lparr>out := t\<rparr>)
                              | (None, t) \<Rightarrow>
                                  (case write_text e [''.nojekyll''] [] (w5\<lparr>out := t\<rparr>) of
                                     (Some err, w6) \<Rightarrow> (Uncaught err, w6)
                                   | (None, w6) \<Rightarrow> (Exit 0, w6)))))))"

definition main :: "env \<Rightarrow> args \<Rightarrow> world \<Rightarrow> (outcome \<times> world) option" where
  \<comment> \<open>no result when the readiness loop never ends\<close>
  "main e a w =
     (let glance_url = rstrip_slash (arg_glance_url a);
          base_path = normalize_base_path (arg_base_path a)
      in case discover_slugs (config e) of
           Inl err \<Rightarrow> Some (Uncaught err, w)
         | Inr slugs \<Rightarrow>
             if slugs = [] then Some (Exit 2, w)
             else
               Option.bind
                 (wait_ready e (glance_url @ (if ''home'' \<in> set slugs then ''/home'' else ''/'')) w)
                 (\<lambda>(ready, w').
                    if \<not> ready then Some (Exit 3, w')
                    else Some (export_site e glance_url base_path slugs w')))"

text \<open>
  For the properties of the run: the file at a path of the output tree, and what the
  last pass leaves of a file's bytes, given whether its name has one of the two
  suffixes.
\<close>

definition file_at :: "tree \<Rightarrow> string list \<Rightarrow> string option" where
  "file_at t path = (case map_of t path of Some (File data) \<Rightarrow> Some data | _ \<Rightarrow> None)"

definition rewritten :: "env \<Rightarrow> string \<Rightarrow> bool \<Rightarrow> string \<Rightarrow> string" where
  "rewritten e base_path html d =
     (if html then (case rewrite_base_paths (read_text e d) base_path of
                      Inl err \<Rightarrow> d
                    | Inr t \<Rightarrow> if t \<noteq> read_text e d then encode e t else d)
      else d)"

definition free_for :: "tree \<Rightarrow> string list \<Rightarrow> bool" where
  \<comment> \<open>nothing of the tree stands in the way of a write at the path: no file at a
      directory of the path, no directory at the path itself\<close>
  "free_for t path =
     (path \<noteq> [] \<and> ''..'' \<notin> set path
      \<and> list_all (\<lambda>k. case map_of t (take k path) of Some (File data) \<Rightarrow> False | _ \<Rightarrow> True)
           [1..<length path]
      \<and> map_of t path \<noteq> Some Folder)"

section \<open>Writes to the output tree\<close>

text \<open>
  What a write leaves of the files of the tree, when it succeeds, and that it succeeds
  when nothing stands in its way.
\<close>

lemma file_at_append_folder:
  "file_at (t @ [(k, Folder)]) q = file_at t q"
  by (simp add: file_at_def map_add_def split: option.splits node.splits)

lemma mkdirs_file_at:
  "file_at (snd (snd (mkdirs cur cs t))) q = file_at t q"
proof (induction cs arbitrary: cur t)
  case Nil
  then show ?case by simp
next
  case (Cons c cs)
  show ?case
  proof (cases "c = ''..''")
    case True
    then show ?thesis using Cons.IH by simp
  next
    case False
    show ?thesis
    proof (cases "map_of t (cur @ [c])")
      case None
      have "file_at (snd (snd (mkdirs (cur @ [c]) cs (t @ [(cur @ [c], Folder)])))) q
            = file_at (t @ [(cur @ [c], Folder)]) q"
        by (rule Cons.IH)
      then show ?thesis using False None by (simp add: file_at_append_folder)
    next
      case (Some n)
      then show ?thesis using False Cons.IH by (cases n) simp_all
    qed
  qed
qed

lemma mkdirs_cur:
  "''..'' \<notin> set cs \<Longrightarrow> fst (mkdirs cur cs t) = None \<Longrightarrow> fst (snd (mkdirs cur cs t)) = cur @ cs"
proof (induction cs arbitrary: cur t)
  case Nil
  then show ?case by simp
next
  case (Cons c cs)
  have c: "c \<noteq> ''..''" and cs: "''..'' \<notin> set cs" using Cons.prems(1) by auto
  show ?case
  proof (cases "map_of t (cur @ [c])")
    case None
    then show ?thesis using c Cons.IH [OF cs, of "cur @ [c]"] Cons.prems(2) by simp
  next
    case (Some n)
    then show ?thesis using c Cons.IH [OF cs, of "cur @ [c]"] Cons.prems(2) by (cases n) simp_all
  qed
qed

lemma write_bytes_reqs:
  "reqs (snd (write_bytes path data w)) = reqs w"
  by (simp add: write_bytes_def split: prod.splits option.splits node.splits)

lemma file_at_update:
  "file_at (AList.update k (File data) t) q = (if q = k then Some data else file_at t q)"
  by (simp add: file_at_def update_conv')

lemma write_bytes_failed:
  assumes "fst (write_bytes path data w) \<noteq> None"
  shows "file_at (out (snd (write_bytes path data w))) q = file_at (out w) q"
proof (cases "path = []")
  case True
  then show ?thesis by (simp add: write_bytes_def)
next
  case False
  obtain r cur t where m: "mkdirs [] (butlast path) (out w) = (r, cur, t)"
    by (cases "mkdirs [] (butlast path) (out w)")
  have f: "file_at t q = file_at (out w) q"
    using mkdirs_file_at [of "[]" "butlast path" "out w" q] by (simp add: m)
  show ?thesis
    using assms False f
    by (simp add: write_bytes_def m split: option.splits node.splits if_splits)
qed

lemma write_bytes_done:
  assumes "fst (write_bytes path data w) = None" and "''..'' \<notin> set path"
  shows "file_at (out (snd (write_bytes path data w))) q
         = (if q = path then Some data else file_at (out w) q)"
proof -
  have ne: "path \<noteq> []" using assms(1) by (auto simp add: write_bytes_def)
  obtain r cur t where m: "mkdirs [] (butlast path) (out w) = (r, cur, t)"
    by (cases "mkdirs [] (butlast path) (out w)")
  have r: "r = None"
    using assms(1) ne by (cases r) (simp_all add: write_bytes_def m)
  have "''..'' \<notin> set (butlast path)" using assms(2) by (auto dest: in_set_butlastD)
  then have "fst (snd (mkdirs [] (butlast path) (out w))) = [] @ butlast path"
    by (rule mkdirs_cur) (simp add: m r)
  then have cur: "cur @ [last path] = path" using ne by (simp add: m)
  have f: "file_at t q = file_at (out w) q"
    using mkdirs_file_at [of "[]" "butlast path" "out w" q] by (simp add: m)
  show ?thesis
    using assms(1) ne f
    by (simp add: write_bytes_def m r cur file_at_update split: option.splits node.splits if_splits)
qed


lemma map_of_append_folder:
  "map_of (t @ [(k, Folder)]) q
   = (if map_of t q = None \<and> q = k then Some Folder else map_of t q)"
  by (cases "map_of t q") (auto simp add: map_add_def)

lemma mkdirs_map_of:
  "''..'' \<notin> set cs \<Longrightarrow>
   map_of (snd (snd (mkdirs cur cs t))) q = map_of t q
   \<or> (map_of t q = None \<and> map_of (snd (snd (mkdirs cur cs t))) q = Some Folder
      \<and> strict_prefix cur q \<and> prefix q (cur @ cs))"
proof (induction cs arbitrary: cur t)
  case Nil
  then show ?case by simp
next
  case (Cons c cs)
  have c: "c \<noteq> ''..''" and cs: "''..'' \<notin> set cs" using Cons.prems(1) by auto
  have p: "strict_prefix (cur @ [c]) q \<and> prefix q ((cur @ [c]) @ cs)
           \<Longrightarrow> strict_prefix cur q \<and> prefix q (cur @ c # cs)"
    by (auto simp add: strict_prefix_def prefix_def)
  show ?case
  proof (cases "map_of t (cur @ [c])")
    case None
    let ?t = "t @ [(cur @ [c], Folder)]"
    have ih: "map_of (snd (snd (mkdirs (cur @ [c]) cs ?t))) q = map_of ?t q
      \<or> (map_of ?t q = None \<and> map_of (snd (snd (mkdirs (cur @ [c]) cs ?t))) q = Some Folder
         \<and> strict_prefix (cur @ [c]) q \<and> prefix q ((cur @ [c]) @ cs))"
      by (rule Cons.IH [OF cs])
    have m: "mkdirs cur (c # cs) t = mkdirs (cur @ [c]) cs ?t"
      using c None by simp
    have k: "q = cur @ [c] \<Longrightarrow> strict_prefix cur q \<and> prefix q (cur @ c # cs)"
      by (auto simp add: strict_prefix_def prefix_def)
    have tq: "map_of ?t q
              = (if map_of t q = None \<and> q = cur @ [c] then Some Folder else map_of t q)"
      by (rule map_of_append_folder)
    show ?thesis
      using ih p k unfolding m tq
      by (auto simp del: map_of_append split: if_splits)
  next
    case (Some n)
    show ?thesis
    proof (cases n)
      case (File d)
      then show ?thesis using c Some by simp
    next
      case Folder
      have m: "mkdirs cur (c # cs) t = mkdirs (cur @ [c]) cs t"
        using c Some Folder by simp
      show ?thesis unfolding m using Cons.IH [OF cs, of "cur @ [c]" t] p by blast
    qed
  qed
qed

lemma mkdirs_free:
  "''..'' \<notin> set cs \<Longrightarrow>
   (\<forall>k. 0 < k \<and> k \<le> length cs \<longrightarrow> (\<forall>d. map_of t (cur @ take k cs) \<noteq> Some (File d))) \<Longrightarrow>
   fst (mkdirs cur cs t) = None"
proof (induction cs arbitrary: cur t)
  case Nil
  then show ?case by simp
next
  case (Cons c cs)
  have c: "c \<noteq> ''..''" and cs: "''..'' \<notin> set cs" using Cons.prems(1) by auto
  have one: "\<forall>d. map_of t (cur @ [c]) \<noteq> Some (File d)"
    using Cons.prems(2) [rule_format, of 1] by simp
  have rest: "\<forall>k. 0 < k \<and> k \<le> length cs
                \<longrightarrow> (\<forall>d. map_of t ((cur @ [c]) @ take k cs) \<noteq> Some (File d))"
  proof (intro allI impI)
    fix k d
    assume k: "0 < k \<and> k \<le> length cs"
    show "map_of t ((cur @ [c]) @ take k cs) \<noteq> Some (File d)"
      using Cons.prems(2) [rule_format, of "Suc k" d] k by simp
  qed
  show ?case
  proof (cases "map_of t (cur @ [c])")
    case None
    let ?t = "t @ [(cur @ [c], Folder)]"
    have "\<forall>k. 0 < k \<and> k \<le> length cs
                \<longrightarrow> (\<forall>d. map_of ?t ((cur @ [c]) @ take k cs) \<noteq> Some (File d))"
      using rest by (simp del: map_of_append add: map_of_append_folder)
    then have "fst (mkdirs (cur @ [c]) cs ?t) = None"
      by (rule Cons.IH [OF cs])
    then show ?thesis using c None by simp
  next
    case (Some n)
    then have n: "n = Folder" using one by (cases n) simp_all
    have "fst (mkdirs (cur @ [c]) cs t) = None"
      using rest by (rule Cons.IH [OF cs])
    then show ?thesis using c Some n by simp
  qed
qed

lemma free_forD:
  assumes "free_for t path"
  shows "path \<noteq> []" and "''..'' \<notin> set path"
    and "\<And>k d. 0 < k \<Longrightarrow> k < length path \<Longrightarrow> map_of t (take k path) \<noteq> Some (File d)"
    and "map_of t path \<noteq> Some Folder"
proof -
  show "path \<noteq> []" and "''..'' \<notin> set path" and "map_of t path \<noteq> Some Folder"
    using assms by (simp_all add: free_for_def)
  fix k d
  assume "0 < k" and "k < length path"
  then have "k \<in> set [1..<length path]" by simp
  moreover have "\<forall>k \<in> set [1..<length path].
      (case map_of t (take k path) of Some (File data) \<Rightarrow> False | _ \<Rightarrow> True)"
    using assms by (simp add: free_for_def list_all_iff)
  ultimately have "case map_of t (take k path) of Some (File data) \<Rightarrow> False | _ \<Rightarrow> True"
    by blast
  then show "map_of t (take k path) \<noteq> Some (File d)" by auto
qed

lemma free_forI:
  assumes "path \<noteq> []" and "''..'' \<notin> set path"
    and "\<And>k d. 0 < k \<Longrightarrow> k < length path \<Longrightarrow> map_of t (take k path) \<noteq> Some (File d)"
    and "map_of t path \<noteq> Some Folder"
  shows "free_for t path"
proof -
  have "\<forall>k \<in> set [1..<length path].
      (case map_of t (take k path) of Some (File data) \<Rightarrow> False | _ \<Rightarrow> True)"
  proof
    fix k
    assume "k \<in> set [1..<length path]"
    then have "0 < k" and "k < length path" by simp_all
    then have "\<And>d. map_of t (take k path) \<noteq> Some (File d)" by (rule assms(3))
    then show "case map_of t (take k path) of Some (File data) \<Rightarrow> False | _ \<Rightarrow> True"
      by (auto split: option.splits node.splits)
  qed
  then show ?thesis using assms(1,2,4) by (simp add: free_for_def list_all_iff)
qed

lemma write_bytes_free:
  assumes "free_for (out w) path"
  shows "fst (write_bytes path data w) = None"
proof -
  note f = free_forD [OF assms]
  obtain r cur t where m: "mkdirs [] (butlast path) (out w) = (r, cur, t)"
    by (cases "mkdirs [] (butlast path) (out w)")
  have nb: "''..'' \<notin> set (butlast path)" using f(2) by (auto dest: in_set_butlastD)
  have "\<forall>k. 0 < k \<and> k \<le> length (butlast path)
          \<longrightarrow> (\<forall>d. map_of (out w) ([] @ take k (butlast path)) \<noteq> Some (File d))"
  proof (intro allI impI)
    fix k d
    assume k: "0 < k \<and> k \<le> length (butlast path)"
    then have kl: "k < length path" by (simp only: length_butlast) arith
    then have "take k (butlast path) = take k path" by (simp add: take_butlast)
    moreover have "map_of (out w) (take k path) \<noteq> Some (File d)"
      using k kl by (intro f(3)) simp_all
    ultimately show "map_of (out w) ([] @ take k (butlast path)) \<noteq> Some (File d)" by simp
  qed
  with nb have "fst (mkdirs [] (butlast path) (out w)) = None" by (rule mkdirs_free)
  then have r: "r = None" by (simp add: m)
  have "fst (snd (mkdirs [] (butlast path) (out w))) = [] @ butlast path"
    using nb by (rule mkdirs_cur) (simp add: m r)
  then have cur: "cur @ [last path] = path" using f(1) by (simp add: m)
  have "map_of t path = map_of (out w) path
        \<or> (map_of (out w) path = None \<and> map_of t path = Some Folder
           \<and> strict_prefix [] path \<and> prefix path ([] @ butlast path))"
    using mkdirs_map_of [OF nb, of "[]" "out w" path] by (simp add: m)
  moreover have "\<not> prefix path (butlast path)"
    using f(1) by (metis append_butlast_last_id prefix_order.dual_order.antisym prefixI
        append_self_conv not_Cons_self2)
  ultimately have "map_of t path \<noteq> Some Folder" using f(4) by auto
  moreover have "last path \<noteq> ''..''" using f(1,2) last_in_set by metis
  ultimately show ?thesis
    using f(1)
    by (simp add: write_bytes_def m r cur split: option.splits node.splits)
qed

lemma write_bytes_keeps_free:
  assumes p: "''..'' \<notin> set path" and q: "free_for (out w) other"
    and n1: "\<not> prefix path other" and n2: "\<not> prefix other path"
  shows "free_for (out (snd (write_bytes path data w))) other"
proof (cases "path = []")
  case True
  then show ?thesis using q by (simp add: write_bytes_def)
next
  case False
  note f = free_forD [OF q]
  obtain r cur t where m: "mkdirs [] (butlast path) (out w) = (r, cur, t)"
    by (cases "mkdirs [] (butlast path) (out w)")
  have nb: "''..'' \<notin> set (butlast path)" using p by (auto dest: in_set_butlastD)
  have t: "map_of t x = map_of (out w) x
        \<or> (map_of (out w) x = None \<and> map_of t x = Some Folder \<and> prefix x (butlast path))" for x
    using mkdirs_map_of [OF nb, of "[]" "out w" x] by (auto simp add: m)
  have bp: "prefix (butlast path) path" by (metis append_butlast_last_id False prefixI)
  have tf: "free_for t other"
  proof (rule free_forI [OF f(1) f(2)])
    fix k d
    assume "0 < k" and "k < length other"
    then have "map_of (out w) (take k other) \<noteq> Some (File d)" by (rule f(3))
    then show "map_of t (take k other) \<noteq> Some (File d)" using t [of "take k other"] by auto
  next
    have "\<not> prefix other (butlast path)" using n2 bp by (meson prefix_order.trans)
    then show "map_of t other \<noteq> Some Folder" using t [of other] f(4) by auto
  qed
  have upd: "free_for (AList.update k (File data) t) other"
    if "\<not> prefix k other" for k
  proof (rule free_forI [OF f(1) f(2)])
    fix j d
    assume "0 < j" and j: "j < length other"
    then have a: "map_of t (take j other) \<noteq> Some (File d)" by (rule free_forD(3) [OF tf])
    have "take j other \<noteq> k" using that by (metis take_is_prefix)
    then show "map_of (AList.update k (File data) t) (take j other) \<noteq> Some (File d)"
      using a by (simp add: update_conv')
  next
    have "other \<noteq> k" using that by auto
    then show "map_of (AList.update k (File data) t) other \<noteq> Some Folder"
      using free_forD(4) [OF tf] by (simp add: update_conv')
  qed
  show ?thesis
  proof (cases r)
    case (Some err)
    then show ?thesis using False tf by (simp add: write_bytes_def m)
  next
    case None
    have "fst (snd (mkdirs [] (butlast path) (out w))) = [] @ butlast path"
      using nb by (rule mkdirs_cur) (simp add: m None)
    then have cur: "cur @ [last path] = path" using False by (simp add: m)
    show ?thesis
      using False tf upd [OF n1]
      by (simp add: write_bytes_def m None cur split: option.splits node.splits)
  qed
qed

section \<open>Properties of base-path normalisation\<close>

lemma rstrip_by_last: "rstrip_by p s \<noteq> [] \<Longrightarrow> \<not> p (last (rstrip_by p s))"
proof -
  assume ne: "rstrip_by p s \<noteq> []"
  then have "dropWhile p (rev s) \<noteq> []" by (simp add: rstrip_by_def)
  then have "\<not> p (hd (dropWhile p (rev s)))" by (rule hd_dropWhile)
  moreover have "last (rstrip_by p s) = hd (dropWhile p (rev s))"
    using ne by (simp add: rstrip_by_def last_rev)
  ultimately show ?thesis by simp
qed

lemma rstrip_by_prefix: "prefix (rstrip_by p s) s"
proof -
  have "suffix (dropWhile p (rev s)) (rev s)" by (rule suffix_dropWhile)
  then obtain zs where "rev s = zs @ dropWhile p (rev s)" by (auto simp: suffix_def)
  then have "s = rev (dropWhile p (rev s)) @ rev zs"
    by (metis rev_append rev_rev_ident)
  then show ?thesis unfolding rstrip_by_def prefix_def by blast
qed

lemma rstrip_by_hd: "rstrip_by p s \<noteq> [] \<Longrightarrow> hd (rstrip_by p s) = hd s"
proof -
  assume ne: "rstrip_by p s \<noteq> []"
  obtain zs where "s = rstrip_by p s @ zs"
    using rstrip_by_prefix [of p s] by (auto simp: prefix_def)
  then have "hd s = hd (rstrip_by p s @ zs)" by simp
  also have "\<dots> = hd (rstrip_by p s)" using ne by simp
  finally show ?thesis by simp
qed

lemma startswith_slash: "startswith s ''/'' \<longleftrightarrow> (s \<noteq> [] \<and> hd s = CHR ''/'')"
  by (cases s) (auto simp: startswith_def)


lemma rstrip_by_Cons:
  assumes "\<exists>y \<in> set x. \<not> p y"
  shows "rstrip_by p (a # x) = a # rstrip_by p x"
proof -
  have "\<not> (\<forall>y \<in> set (rev x). p y)" using assms by simp
  then have "dropWhile p (rev x @ [a]) = dropWhile p (rev x) @ [a]"
    by (simp only: dropWhile_append if_False)
  then show ?thesis by (simp add: rstrip_by_def)
qed

lemma startswith_prefix: "startswith s p \<longleftrightarrow> prefix p s"
proof
  assume "startswith s p"
  then have "p @ drop (length p) s = s"
    unfolding startswith_def by (metis append_take_drop_id)
  then show "prefix p s" unfolding prefix_def by metis
next
  assume "prefix p s"
  then show "startswith s p" by (auto simp: prefix_def startswith_def)
qed

lemma normalize_base_path_nonempty:
  assumes "normalize_base_path s \<noteq> []"
  shows "normalize_base_path s =
         rstrip_slash (if \<not> startswith (strip s) ''/'' then ''/'' @ strip s else strip s)"
  using assms by (auto simp: normalize_base_path_def Let_def)

lemma normalize_base_path_hd_last:
  assumes "normalize_base_path s \<noteq> []"
  shows "hd (normalize_base_path s) = CHR ''/'' \<and> last (normalize_base_path s) \<noteq> CHR ''/''"
proof -
  define bq where "bq = (if \<not> startswith (strip s) ''/'' then ''/'' @ strip s else strip s)"
  have r: "normalize_base_path s = rstrip_slash bq"
    unfolding bq_def by (rule normalize_base_path_nonempty [OF assms])
  have ne: "rstrip_by (\<lambda>c. c = CHR ''/'') bq \<noteq> []"
    using assms r by (simp add: rstrip_slash_def)
  have "hd bq = CHR ''/''" by (auto simp: bq_def startswith_slash)
  then have "hd (rstrip_slash bq) = CHR ''/''"
    using rstrip_by_hd [OF ne] by (simp add: rstrip_slash_def)
  moreover have "last (rstrip_slash bq) \<noteq> CHR ''/''"
    using rstrip_by_last [OF ne] by (simp add: rstrip_slash_def)
  ultimately show ?thesis using r by simp
qed

lemma normalize_base_path_gains_slash:
  assumes "strip s \<noteq> []" and "\<not> startswith (strip s) ''/''"
  shows "normalize_base_path s = CHR ''/'' # rstrip_slash (strip s)"
proof -
  have hd: "hd (strip s) \<noteq> CHR ''/''" using assms by (simp add: startswith_slash)
  have "hd (strip s) \<in> set (strip s)" using assms(1) by simp
  then have ex: "\<exists>y \<in> set (strip s). \<not> y = CHR ''/''" using hd by blast
  have "strip s \<noteq> ''/''" using hd by auto
  then have "normalize_base_path s = rstrip_slash (CHR ''/'' # strip s)"
    using assms by (simp add: normalize_base_path_def Let_def)
  also have "\<dots> = CHR ''/'' # rstrip_slash (strip s)"
    unfolding rstrip_slash_def using ex by (rule rstrip_by_Cons)
  finally show ?thesis .
qed

lemma normalize_base_path_single_slash:
  assumes "\<not> startswith (strip s) ''//''"
  shows "\<not> startswith (normalize_base_path s) ''//''"
proof
  assume d: "startswith (normalize_base_path s) ''//''"
  then have ne: "normalize_base_path s \<noteq> []" by (auto simp: startswith_def)
  define bq where "bq = (if \<not> startswith (strip s) ''/'' then ''/'' @ strip s else strip s)"
  have r: "normalize_base_path s = rstrip_slash bq"
    unfolding bq_def by (rule normalize_base_path_nonempty [OF ne])
  have "prefix (rstrip_slash bq) bq" by (simp add: rstrip_slash_def rstrip_by_prefix)
  moreover have "prefix ''//'' (rstrip_slash bq)" using d r by (simp add: startswith_prefix)
  ultimately have "prefix ''//'' bq" by (rule prefix_order.order_trans [rotated])
  then have bb: "startswith bq ''//''" by (simp add: startswith_prefix)
  show False
  proof (cases "startswith (strip s) ''/''")
    case True
    then show ?thesis using bb assms by (simp add: bq_def)
  next
    case False
    then have "startswith (CHR ''/'' # strip s) ''//''" using bb by (simp add: bq_def)
    then have "startswith (strip s) ''/''" by (cases "strip s") (auto simp: startswith_def)
    then show ?thesis using False by simp
  qed
qed

lemma normalize_base_path_keeps_slash:
  assumes "strip s \<noteq> []" and "strip s \<noteq> ''/''" and "startswith (strip s) ''/''"
  shows "normalize_base_path s = rstrip_slash (strip s)"
  using assms by (simp add: normalize_base_path_def Let_def)

lemma normalize_base_path_empty:
  assumes "strip s = [] \<or> strip s = ''/''"
  shows "normalize_base_path s = []"
  using assms by (auto simp: normalize_base_path_def Let_def)

lemma rstrip_slash_removes:
  "\<exists>n. x = rstrip_slash x @ replicate n (CHR ''/'')"
proof -
  have "takeWhile (\<lambda>c. c = CHR ''/'') (rev x) @ dropWhile (\<lambda>c. c = CHR ''/'') (rev x) = rev x"
    by (rule takeWhile_dropWhile_id)
  then have "x = rev (dropWhile (\<lambda>c. c = CHR ''/'') (rev x))
                 @ rev (takeWhile (\<lambda>c. c = CHR ''/'') (rev x))"
    by (metis rev_append rev_rev_ident)
  moreover have "\<forall>c \<in> set (rev (takeWhile (\<lambda>c. c = CHR ''/'') (rev x))). c = CHR ''/''"
    by (auto dest: set_takeWhileD)
  then have "replicate (length (rev (takeWhile (\<lambda>c. c = CHR ''/'') (rev x)))) (CHR ''/'')
             = rev (takeWhile (\<lambda>c. c = CHR ''/'') (rev x))"
    by (rule replicate_length_same)
  ultimately have "x = rstrip_slash x
        @ replicate (length (rev (takeWhile (\<lambda>c. c = CHR ''/'') (rev x)))) (CHR ''/'')"
    by (simp only: rstrip_slash_def rstrip_by_def)
  then show ?thesis by (rule exI [of _ "length (rev (takeWhile (\<lambda>c. c = CHR ''/'') (rev x)))"])
qed

text \<open>
  C8 (as amended).  For every input, base-path normalisation returns the empty string or
  a string that begins with a slash and does not end with one.  An input that,
  stripped of white space, is empty or a lone slash normalises to the empty string; one
  that has no leading slash gains one in front of it; one that has a leading slash is
  kept; in both cases the trailing slashes, and nothing else, are removed.  The result
  begins with exactly one slash whenever the stripped input does not begin with two.
\<close>

theorem normalize_base_path_shape:
  "(normalize_base_path s = [] \<or>
      (startswith (normalize_base_path s) ''/'' \<and> \<not> endswith (normalize_base_path s) ''/''))
   \<and> normalize_base_path [] = [] \<and> normalize_base_path ''/'' = []
   \<and> (strip s = [] \<or> strip s = ''/'' \<longrightarrow> normalize_base_path s = [])
   \<and> (strip s \<noteq> [] \<and> \<not> startswith (strip s) ''/''
        \<longrightarrow> normalize_base_path s = CHR ''/'' # rstrip_slash (strip s))
   \<and> (strip s \<noteq> [] \<and> strip s \<noteq> ''/'' \<and> startswith (strip s) ''/''
        \<longrightarrow> normalize_base_path s = rstrip_slash (strip s))
   \<and> (\<exists>n. strip s = rstrip_slash (strip s) @ replicate n (CHR ''/''))
   \<and> (\<not> startswith (strip s) ''//'' \<longrightarrow> \<not> startswith (normalize_base_path s) ''//'')"
proof -
  have a: "normalize_base_path s = [] \<or>
      (startswith (normalize_base_path s) ''/'' \<and> \<not> endswith (normalize_base_path s) ''/'')"
  proof (cases "normalize_base_path s = []")
    case True
    then show ?thesis by simp
  next
    case False
    then have h: "hd (normalize_base_path s) = CHR ''/''"
      and l: "last (normalize_base_path s) \<noteq> CHR ''/''"
      using normalize_base_path_hd_last by auto
    have "startswith (normalize_base_path s) ''/''"
      using False h by (simp add: startswith_slash)
    moreover have "\<not> endswith (normalize_base_path s) ''/''"
    proof
      assume "endswith (normalize_base_path s) ''/''"
      then have "drop (length (normalize_base_path s) - 1) (normalize_base_path s) = ''/''"
        by (simp add: endswith_def)
      moreover have "length (normalize_base_path s) - 1 < length (normalize_base_path s)"
        using False by simp
      ultimately have "last (normalize_base_path s) = CHR ''/''"
        using last_drop [of "length (normalize_base_path s) - 1" "normalize_base_path s"]
        by simp
      then show False using l by simp
    qed
    ultimately show ?thesis by simp
  qed
  have b: "normalize_base_path [] = []"
    by (simp add: normalize_base_path_def strip_def lstrip_by_def rstrip_by_def)
  have c: "normalize_base_path ''/'' = []"
    by (simp add: normalize_base_path_def strip_def lstrip_by_def rstrip_by_def is_space_def)
  have c': "strip s = [] \<or> strip s = ''/'' \<longrightarrow> normalize_base_path s = []"
    using normalize_base_path_empty [of s] by (intro impI)
  have d: "strip s \<noteq> [] \<and> \<not> startswith (strip s) ''/''
        \<longrightarrow> normalize_base_path s = CHR ''/'' # rstrip_slash (strip s)"
    using normalize_base_path_gains_slash [of s] by (intro impI) (elim conjE)
  have d': "strip s \<noteq> [] \<and> strip s \<noteq> ''/'' \<and> startswith (strip s) ''/''
        \<longrightarrow> normalize_base_path s = rstrip_slash (strip s)"
    using normalize_base_path_keeps_slash [of s] by (intro impI) (elim conjE)
  have r: "\<exists>n. strip s = rstrip_slash (strip s) @ replicate n (CHR ''/'')"
    by (rule rstrip_slash_removes)
  have e: "\<not> startswith (strip s) ''//'' \<longrightarrow> \<not> startswith (normalize_base_path s) ''//''"
    using normalize_base_path_single_slash [of s] by (intro impI)
  show ?thesis
    by (rule conjI [OF a conjI [OF b conjI [OF c conjI [OF c' conjI [OF d conjI [OF d'
          conjI [OF r e]]]]]]])
qed

theorem normalize_base_path_shape_witness:
  "strip ''repo/'' \<noteq> [] \<and> \<not> startswith (strip ''repo/'') ''/''
   \<and> \<not> startswith (strip ''repo/'') ''//''
   \<and> normalize_base_path ''repo/'' = ''/repo''
   \<and> strip '' /repo// '' \<noteq> [] \<and> strip '' /repo// '' \<noteq> ''/''
   \<and> startswith (strip '' /repo// '') ''/''
   \<and> normalize_base_path '' /repo// '' = ''/repo''
   \<and> strip ''  '' = [] \<and> normalize_base_path ''  '' = []"
proof -
  have s1: "strip ''repo/'' = ''repo/''"
    by (simp add: strip_def lstrip_by_def rstrip_by_def is_space_def)
  have s2: "strip '' /repo// '' = ''/repo//''"
    by (simp add: strip_def lstrip_by_def rstrip_by_def is_space_def)
  have s3: "strip ''  '' = []"
    by (simp add: strip_def lstrip_by_def rstrip_by_def is_space_def)
  have r1: "rstrip_slash ''repo/'' = ''repo''" and r2: "rstrip_slash ''/repo//'' = ''/repo''"
    by (simp_all add: rstrip_slash_def rstrip_by_def)
  have n1: "normalize_base_path ''repo/'' = ''/repo''"
    using normalize_base_path_shape [of "''repo/''"] by (simp add: s1 r1 startswith_def)
  have n2: "normalize_base_path '' /repo// '' = ''/repo''"
    using normalize_base_path_shape [of "'' /repo// ''"] by (simp add: s2 r2 startswith_def)
  have n3: "normalize_base_path ''  '' = []"
    using normalize_base_path_shape [of "''  ''"] by (simp add: s3)
  show ?thesis using n1 n2 n3 by (simp add: s1 s2 s3 startswith_def)
qed

theorem normalize_base_path_double_slash_counterexample:
  "\<not> (normalize_base_path ''//a'' = [] \<or>
       (startswith (normalize_base_path ''//a'') ''/''
        \<and> \<not> startswith (normalize_base_path ''//a'') ''//''
        \<and> \<not> endswith (normalize_base_path ''//a'') ''/''))"
proof -
  have "normalize_base_path ''//a'' = ''//a''"
    by (simp add: normalize_base_path_def strip_def lstrip_by_def rstrip_by_def
        rstrip_slash_def is_space_def startswith_def)
  then show ?thesis by (simp add: startswith_def)
qed

section \<open>Properties of slug discovery\<close>

lemma remdups_append_mem: "x \<in> set zs \<Longrightarrow> remdups (ys @ x # zs) = remdups (ys @ zs)"
  by (induction ys) auto

lemma add_new_first_occurrences:
  "distinct acc \<Longrightarrow> add_new acc xs = first_occurrences (acc @ xs)"
proof (induction xs arbitrary: acc)
  case Nil
  then have h: "remdups (rev acc) = rev acc" by (intro distinct_remdups_id) simp
  show ?case by (simp add: first_occurrences_def h)
next
  case (Cons x xs)
  show ?case
  proof (cases "x \<in> set acc")
    case True
    then have "remdups (rev xs @ x # rev acc) = remdups (rev xs @ rev acc)"
      by (intro remdups_append_mem) simp
    then show ?thesis using Cons True by (simp add: first_occurrences_def)
  next
    case False
    then have "distinct (acc @ [x])" using Cons.prems by simp
    then have "add_new (acc @ [x]) xs = first_occurrences ((acc @ [x]) @ xs)"
      by (rule Cons.IH)
    then show ?thesis using False by simp
  qed
qed

lemma scan_lines_add_new:
  "scan_lines ls (slugs, set slugs) =
     (add_new slugs (List.map_filter slug_of_line ls),
      set (add_new slugs (List.map_filter slug_of_line ls)))"
proof (induction ls arbitrary: slugs)
  case Nil
  then show ?case by (simp add: List.map_filter_simps)
next
  case (Cons l ls)
  show ?case
  proof (cases "slug_of_line l")
    case None
    then show ?thesis using Cons [of slugs] by (simp add: List.map_filter_simps)
  next
    case (Some s)
    show ?thesis
    proof (cases "s \<in> set slugs")
      case True
      then show ?thesis using Some Cons [of slugs] by (simp add: List.map_filter_simps)
    next
      case False
      have "insert s (set slugs) = set (slugs @ [s])" by simp
      then show ?thesis using Some False Cons [of "slugs @ [s]"]
        by (simp add: List.map_filter_simps)
    qed
  qed
qed

lemma add_new_append: "add_new acc (xs @ ys) = add_new (add_new acc xs) ys"
  by (induction xs arbitrary: acc) auto

lemma scan_files_add_new:
  "list_all (\<lambda>e. snd e \<noteq> Unreadable) fs \<Longrightarrow>
   scan_files fs (slugs, set slugs) =
     Inr (add_new slugs (concat (map (\<lambda>e. file_slugs (snd e)) fs)),
          set (add_new slugs (concat (map (\<lambda>e. file_slugs (snd e)) fs))))"
proof (induction fs arbitrary: slugs)
  case Nil
  then show ?case by simp
next
  case (Cons f fs)
  obtain name r where f: "f = (name, r)" by (cases f)
  have rest: "list_all (\<lambda>e. snd e \<noteq> Unreadable) fs" using Cons.prems by simp
  show ?case
  proof (cases r)
    case (Content body)
    define s1 where "s1 = add_new slugs (List.map_filter slug_of_line (splitlines body))"
    have "scan_files (f # fs) (slugs, set slugs) = scan_files fs (s1, set s1)"
      by (simp add: f Content scan_lines_add_new s1_def)
    also have "\<dots> = Inr (add_new s1 (concat (map (\<lambda>e. file_slugs (snd e)) fs)),
                          set (add_new s1 (concat (map (\<lambda>e. file_slugs (snd e)) fs))))"
      using rest by (rule Cons.IH)
    finally show ?thesis
      by (simp add: f Content file_slugs_def add_new_append s1_def)
  next
    case Missing
    then show ?thesis using Cons.IH [OF rest, of slugs] by (simp add: f file_slugs_def)
  next
    case Unreadable
    then show ?thesis using Cons.prems by (simp add: f)
  qed
qed

lemma scan_files_glob:
  assumes "readable d"
  shows "scan_files (glob_yml d) ([], {}) =
           Inr (first_occurrences (slug_occurrences d),
                set (first_occurrences (slug_occurrences d)))"
proof -
  have "list_all (\<lambda>e. snd e \<noteq> Unreadable) (glob_yml d)"
    using assms by (simp add: readable_def)
  then have "scan_files (glob_yml d) ([], set []) =
           Inr (add_new [] (slug_occurrences d), set (add_new [] (slug_occurrences d)))"
    unfolding slug_occurrences_def by (rule scan_files_add_new)
  moreover have "add_new [] (slug_occurrences d) = first_occurrences (slug_occurrences d)"
    using add_new_first_occurrences [of "[]" "slug_occurrences d"] by simp
  ultimately show ?thesis by simp
qed

lemma first_occurrences_set: "set (first_occurrences xs) = set xs"
  by (simp add: first_occurrences_def)

lemma first_occurrences_distinct: "distinct (first_occurrences xs)"
  by (simp add: first_occurrences_def)

text \<open>
  C4 (as amended).  The declaration files are read in sorted order.  When none of them
  raises an error other than its absence on reading, discovery returns a list without
  repetitions whose elements are exactly the slugs met, as many as there are distinct
  ones; without \<open>home\<close> it is the list of first occurrences in the order met, and
  with \<open>home\<close> it is \<open>home\<close> followed by the other first occurrences in that
  order.
\<close>

theorem discover_slugs_first_occurrences:
  assumes "readable d"
  shows "\<exists>slugs. discover_slugs d = Inr slugs
           \<and> length slugs = card (set (slug_occurrences d))
           \<and> distinct slugs
           \<and> set slugs = set (slug_occurrences d)
           \<and> (''home'' \<notin> set (slug_occurrences d)
                \<longrightarrow> slugs = first_occurrences (slug_occurrences d))
           \<and> (''home'' \<in> set (slug_occurrences d)
                \<longrightarrow> slugs = ''home'' # filter (\<lambda>s. s \<noteq> ''home'')
                                          (first_occurrences (slug_occurrences d)))
           \<and> sorted (map fst (glob_yml d))"
proof -
  define occ where "occ = slug_occurrences d"
  define F where "F = first_occurrences occ"
  define slugs where
    "slugs = (if ''home'' \<in> set occ then ''home'' # filter (\<lambda>s. s \<noteq> ''home'') F else F)"
  have sF: "set F = set occ" and dF: "distinct F"
    by (simp_all add: F_def first_occurrences_set first_occurrences_distinct)
  have "scan_files (glob_yml d) ([], {}) = Inr (F, set F)"
    unfolding F_def occ_def by (rule scan_files_glob [OF assms])
  then have res: "discover_slugs d = Inr slugs"
    unfolding discover_slugs_def slugs_def by (simp add: sF)
  have dist: "distinct slugs" using dF by (simp add: slugs_def)
  have set_eq: "set slugs = set occ" using sF by (auto simp: slugs_def)
  have "card (set slugs) = length slugs" using dist by (rule distinct_card)
  then have len: "length slugs = card (set occ)" by (simp only: set_eq)
  have srt: "sorted (map fst (glob_yml d))"
    by (cases d) (simp_all add: glob_yml_def)
  have a: "''home'' \<notin> set occ \<longrightarrow> slugs = F" by (simp add: slugs_def)
  have b: "''home'' \<in> set occ \<longrightarrow> slugs = ''home'' # filter (\<lambda>s. s \<noteq> ''home'') F"
    by (simp add: slugs_def)
  have "discover_slugs d = Inr slugs \<and> length slugs = card (set occ) \<and> distinct slugs
        \<and> set slugs = set occ
        \<and> (''home'' \<notin> set occ \<longrightarrow> slugs = F)
        \<and> (''home'' \<in> set occ \<longrightarrow> slugs = ''home'' # filter (\<lambda>s. s \<noteq> ''home'') F)
        \<and> sorted (map fst (glob_yml d))"
    by (rule conjI [OF res conjI [OF len conjI [OF dist conjI [OF set_eq
          conjI [OF a conjI [OF b srt]]]]]])
  then have "\<exists>slugs. discover_slugs d = Inr slugs \<and> length slugs = card (set occ) \<and> distinct slugs
        \<and> set slugs = set occ
        \<and> (''home'' \<notin> set occ \<longrightarrow> slugs = F)
        \<and> (''home'' \<in> set occ \<longrightarrow> slugs = ''home'' # filter (\<lambda>s. s \<noteq> ''home'') F)
        \<and> sorted (map fst (glob_yml d))"
    by (rule exI [of _ slugs])
  then show ?thesis by (simp only: occ_def F_def)
qed
theorem discover_slugs_first_occurrences_witness:
  "readable (Dir [(''b.yml'', Content ''slug: about\<newline>slug: home''),
                  (''a.yml'', Content ''title: x\<newline> slug: zed \<newline>slug: about''),
                  (''c.txt'', Unreadable)])
   \<and> slug_occurrences (Dir [(''b.yml'', Content ''slug: about\<newline>slug: home''),
                  (''a.yml'', Content ''title: x\<newline> slug: zed \<newline>slug: about''),
                  (''c.txt'', Unreadable)]) = [''zed'', ''about'', ''about'', ''home'']
   \<and> discover_slugs (Dir [(''b.yml'', Content ''slug: about\<newline>slug: home''),
                  (''a.yml'', Content ''title: x\<newline> slug: zed \<newline>slug: about''),
                  (''c.txt'', Unreadable)]) = Inr [''home'', ''zed'', ''about'']"
proof -
  define d where "d = Dir [(''b.yml'', Content ''slug: about\<newline>slug: home''),
                  (''a.yml'', Content ''title: x\<newline> slug: zed \<newline>slug: about''),
                  (''c.txt'', Unreadable)]"
  have r: "readable d" unfolding d_def by code_simp
  have o: "slug_occurrences d = [''zed'', ''about'', ''about'', ''home'']"
    unfolding d_def by code_simp
  obtain slugs where s: "discover_slugs d = Inr slugs"
    and h: "''home'' \<in> set (slug_occurrences d)
            \<longrightarrow> slugs = ''home'' # filter (\<lambda>s. s \<noteq> ''home'')
                                       (first_occurrences (slug_occurrences d))"
    using discover_slugs_first_occurrences [OF r] by blast
  have "slugs = [''home'', ''zed'', ''about'']"
    using h by (simp add: o first_occurrences_def)
  then show ?thesis using r o s unfolding d_def by simp
qed

theorem discover_slugs_unreadable_file_counterexample:
  "slug_occurrences (Dir [(''a.yml'', Content ''slug: about''), (''b.yml'', Unreadable)])
     = [''about'']
   \<and> discover_slugs (Dir [(''a.yml'', Content ''slug: about''), (''b.yml'', Unreadable)])
     = Inl OSError"
  by code_simp

text \<open>
  C10 (as amended).  For a configuration directory that does not exist, or whose
  declaration files are all missing when they are read, discovery raises nothing and
  returns the empty list, and the run ends there with exit status 2, the world as it
  was.  When a declaration file raises another error on reading, discovery raises it,
  and the run ends there with that uncaught error, so with status 1.
\<close>

lemma scan_files_all_missing:
  "list_all (\<lambda>e. snd e = Missing) fs \<Longrightarrow> scan_files fs acc = Inr acc"
proof (induction fs)
  case Nil
  then show ?case by simp
next
  case (Cons f fs)
  then show ?case by (cases f) simp
qed

lemma scan_files_unreadable:
  "\<not> list_all (\<lambda>e. snd e \<noteq> Unreadable) fs \<Longrightarrow> scan_files fs acc = Inl OSError"
proof (induction fs arbitrary: acc)
  case Nil
  then show ?case by simp
next
  case (Cons f fs)
  obtain name r where f: "f = (name, r)" by (cases f)
  show ?case
  proof (cases r)
    case (Content body)
    then have "\<not> list_all (\<lambda>e. snd e \<noteq> Unreadable) fs" using Cons.prems by (simp add: f)
    then show ?thesis using Cons.IH by (simp add: f Content)
  next
    case Missing
    then have "\<not> list_all (\<lambda>e. snd e \<noteq> Unreadable) fs" using Cons.prems by (simp add: f)
    then show ?thesis using Cons.IH by (simp add: f Missing)
  next
    case Unreadable
    then show ?thesis by (simp add: f)
  qed
qed

lemma glob_yml_all_missing:
  assumes "no_declarations d"
  shows "list_all (\<lambda>e. snd e = Missing) (glob_yml d)"
proof (cases d)
  case NoDir
  then show ?thesis by (simp add: glob_yml_def)
next
  case (Dir entries)
  then have "\<forall>e \<in> set entries. endswith (fst e) ''.yml'' \<longrightarrow> snd e = Missing"
    using assms by (simp add: no_declarations_def list_all_iff)
  then have "\<forall>e \<in> set (glob_yml d). snd e = Missing"
    by (simp add: glob_yml_def Dir)
  then show ?thesis by (simp add: list_all_iff)
qed

lemma discover_slugs_unreadable:
  assumes "\<not> readable d"
  shows "discover_slugs d = Inl OSError"
proof -
  have "\<not> list_all (\<lambda>e. snd e \<noteq> Unreadable) (glob_yml d)"
    using assms by (simp add: readable_def)
  then have "scan_files (glob_yml d) ([], {}) = Inl OSError"
    by (rule scan_files_unreadable)
  then show ?thesis by (simp add: discover_slugs_def)
qed

theorem discover_slugs_no_declarations:
  "(no_declarations (config e) \<longrightarrow>
      discover_slugs (config e) = Inr [] \<and> main e a w = Some (Exit 2, w)
      \<and> exit_status (Exit 2) = 2)
   \<and> (\<not> readable (config e) \<longrightarrow>
      discover_slugs (config e) = Inl OSError \<and> main e a w = Some (Uncaught OSError, w)
      \<and> exit_status (Uncaught OSError) = 1)"
proof -
  have first: "discover_slugs (config e) = Inr [] \<and> main e a w = Some (Exit 2, w)
      \<and> exit_status (Exit 2) = 2" if n: "no_declarations (config e)"
  proof -
    have "scan_files (glob_yml (config e)) ([], {}) = Inr ([], {})"
      using glob_yml_all_missing [OF n] by (rule scan_files_all_missing)
    then have d: "discover_slugs (config e) = Inr []"
      by (simp add: discover_slugs_def)
    then have "main e a w = Some (Exit 2, w)"
      by (simp add: main_def Let_def)
    then show ?thesis using d by (simp add: exit_status_def)
  qed
  have second: "discover_slugs (config e) = Inl OSError \<and> main e a w = Some (Uncaught OSError, w)
      \<and> exit_status (Uncaught OSError) = 1" if n: "\<not> readable (config e)"
  proof -
    have d: "discover_slugs (config e) = Inl OSError"
      using n by (rule discover_slugs_unreadable)
    then have "main e a w = Some (Uncaught OSError, w)"
      by (simp add: main_def Let_def)
    then show ?thesis using d by (simp add: exit_status_def)
  qed
  have A: "no_declarations (config e) \<longrightarrow>
      discover_slugs (config e) = Inr [] \<and> main e a w = Some (Exit 2, w)
      \<and> exit_status (Exit 2) = 2"
    using first by (intro impI)
  have B: "\<not> readable (config e) \<longrightarrow>
      discover_slugs (config e) = Inl OSError \<and> main e a w = Some (Uncaught OSError, w)
      \<and> exit_status (Uncaught OSError) = 1"
    using second by (intro impI)
  show ?thesis by (rule conjI [OF A B])
qed

theorem discover_slugs_no_declarations_witness:
  "no_declarations (config \<lparr>config = Dir [(''gone.yml'', Missing), (''notes.txt'', Unreadable)],
       assets = None, net = (\<lambda>n u. Inl []), expired = (\<lambda>n. True), decode = id, encode = id,
       urljoin = (@)\<rparr>)
   \<and> main \<lparr>config = Dir [(''gone.yml'', Missing), (''notes.txt'', Unreadable)],
       assets = None, net = (\<lambda>n u. Inl []), expired = (\<lambda>n. True), decode = id, encode = id,
       urljoin = (@)\<rparr> \<lparr>arg_glance_url = ''http://h'', arg_base_path = []\<rparr>
       \<lparr>out = [], reqs = []\<rparr> = Some (Exit 2, \<lparr>out = [], reqs = []\<rparr>)
   \<and> \<not> readable (config \<lparr>config = Dir [(''about.yml'', Content ''slug: about''), (''b.yml'', Unreadable)],
       assets = None, net = (\<lambda>n u. Inl []), expired = (\<lambda>n. True), decode = id, encode = id,
       urljoin = (@)\<rparr>)
   \<and> main \<lparr>config = Dir [(''about.yml'', Content ''slug: about''), (''b.yml'', Unreadable)],
       assets = None, net = (\<lambda>n u. Inl []), expired = (\<lambda>n. True), decode = id, encode = id,
       urljoin = (@)\<rparr> \<lparr>arg_glance_url = ''http://h'', arg_base_path = []\<rparr>
       \<lparr>out = [], reqs = []\<rparr> = Some (Uncaught OSError, \<lparr>out = [], reqs = []\<rparr>)"
proof -
  have n: "no_declarations (config \<lparr>config = Dir [(''gone.yml'', Missing), (''notes.txt'', Unreadable)],
       assets = None, net = (\<lambda>n u. Inl []), expired = (\<lambda>n. True), decode = id, encode = id,
       urljoin = (@)\<rparr>)"
    by (simp add: no_declarations_def endswith_def)
  have r: "\<not> readable (config \<lparr>config = Dir [(''about.yml'', Content ''slug: about''), (''b.yml'', Unreadable)],
       assets = None, net = (\<lambda>n u. Inl []), expired = (\<lambda>n. True), decode = id, encode = id,
       urljoin = (@)\<rparr>)"
    by code_simp
  show ?thesis
    using n r
      discover_slugs_no_declarations [of "\<lparr>config = Dir [(''gone.yml'', Missing), (''notes.txt'', Unreadable)],
       assets = None, net = (\<lambda>n u. Inl []), expired = (\<lambda>n. True), decode = id, encode = id,
       urljoin = (@)\<rparr>" "\<lparr>arg_glance_url = ''http://h'', arg_base_path = []\<rparr>" "\<lparr>out = [], reqs = []\<rparr>"]
      discover_slugs_no_declarations [of "\<lparr>config = Dir [(''about.yml'', Content ''slug: about''), (''b.yml'', Unreadable)],
       assets = None, net = (\<lambda>n u. Inl []), expired = (\<lambda>n. True), decode = id, encode = id,
       urljoin = (@)\<rparr>" "\<lparr>arg_glance_url = ''http://h'', arg_base_path = []\<rparr>" "\<lparr>out = [], reqs = []\<rparr>"]
    by blast
qed

theorem discover_slugs_unreadable_counterexample:
  "discover_slugs (Dir [(''pages.yml'', Unreadable)]) = Inl OSError"
  by (simp add: discover_slugs_def glob_yml_def endswith_def)

section \<open>Static dependencies: the documented example and protocol-relative references\<close>

lemma add_ref_union: "add_ref d S r = S \<union> add_ref d {} r"
  by (simp add: add_ref_def Let_def)

lemma foldl_add_ref: "foldl (add_ref d) S xs = S \<union> (\<Union>r \<in> set xs. add_ref d {} r)"
proof (induction xs arbitrary: S)
  case Nil
  then show ?case by simp
next
  case (Cons x xs)
  have "foldl (add_ref d) S (x # xs) = add_ref d S x \<union> (\<Union>r \<in> set xs. add_ref d {} r)"
    using Cons.IH [of "add_ref d S x"] by simp
  also have "\<dots> = S \<union> add_ref d {} x \<union> (\<Union>r \<in> set xs. add_ref d {} r)"
    using add_ref_union [of d S x] by simp
  finally show ?case by auto
qed

lemma css_refs_union:
  "css_refs p t = (\<Union>r \<in> set (url_refs t). add_ref (css_dir_of p) {} r)"
  by (simp add: css_refs_def foldl_add_ref)

lemma finite_add_ref: "finite (add_ref d {} r)"
  by (simp add: add_ref_def Let_def)

lemma finite_css_refs: "finite (css_refs p t)"
  by (simp add: css_refs_union finite_add_ref)

lemma fetch_bytes_ok:
  "net e (length (reqs w)) url = Inr data
   \<Longrightarrow> fetch_bytes e url w = (Inr data, w\<lparr>reqs := reqs w @ [url]\<rparr>)"
  by (simp add: fetch_bytes_def)

lemma download_refs_reqs:
  "fst (download_refs e g refs w) = None
   \<Longrightarrow> reqs (snd (download_refs e g refs w)) = reqs w @ map (ref_url e g) refs"
proof (induction refs arbitrary: w)
  case Nil
  then show ?case by simp
next
  case (Cons ref refs)
  let ?u = "ref_url e g ref"
  let ?w1 = "w\<lparr>reqs := reqs w @ [?u]\<rparr>"
  show ?case
  proof (cases "net e (length (reqs w)) ?u")
    case (Inl cause)
    then show ?thesis using Cons.prems by (simp add: fetch_bytes_def)
  next
    case (Inr data)
    let ?w2 = "snd (write_bytes (pure_parts (lstrip_slash ref)) data ?w1)"
    have r2: "reqs ?w2 = reqs w @ [?u]" by (simp add: write_bytes_reqs)
    show ?thesis
    proof (cases "fst (write_bytes (pure_parts (lstrip_slash ref)) data ?w1)")
      case (Some err)
      then show ?thesis using Cons.prems Inr
        by (simp add: fetch_bytes_def split: prod.splits)
    next
      case None
      then have d: "download_refs e g (ref # refs) w = download_refs e g refs ?w2"
        using Inr by (auto simp add: fetch_bytes_def split: prod.splits)
      then have "fst (download_refs e g refs ?w2) = None" using Cons.prems by simp
      then have "reqs (snd (download_refs e g refs ?w2)) = reqs ?w2 @ map (ref_url e g) refs"
        by (rule Cons.IH)
      then show ?thesis unfolding d r2 by simp
    qed
  qed
qed

lemma download_reqs:
  assumes "fst (download_static_css_and_deps e g p v) = None"
  shows "\<exists>css. net e (length (reqs v)) (ref_url e g p) = Inr css
           \<and> reqs (snd (download_static_css_and_deps e g p v))
             = reqs v @ ref_url e g p
                 # map (ref_url e g) (sorted_list_of_set (css_refs p (decode e css)))"
proof (cases "net e (length (reqs v)) (ref_url e g p)")
  case (Inl cause)
  then show ?thesis using assms
    by (simp add: download_static_css_and_deps_def fetch_bytes_def)
next
  case (Inr css)
  let ?v1 = "v\<lparr>reqs := reqs v @ [ref_url e g p]\<rparr>"
  let ?v2 = "snd (write_bytes (pure_parts (lstrip_slash p)) css ?v1)"
  let ?refs = "sorted_list_of_set (css_refs p (decode e css))"
  have r2: "reqs ?v2 = reqs v @ [ref_url e g p]" by (simp add: write_bytes_reqs)
  show ?thesis
  proof (cases "fst (write_bytes (pure_parts (lstrip_slash p)) css ?v1)")
    case (Some err)
    then show ?thesis using assms Inr
      by (simp add: download_static_css_and_deps_def fetch_bytes_def split: prod.splits)
  next
    case None
    then have d: "download_static_css_and_deps e g p v = download_refs e g ?refs ?v2"
      using Inr
      by (auto simp add: download_static_css_and_deps_def fetch_bytes_def split: prod.splits)
    then have "fst (download_refs e g ?refs ?v2) = None" using assms by simp
    then have "reqs (snd (download_refs e g ?refs ?v2)) = reqs ?v2 @ map (ref_url e g) ?refs"
      by (rule download_refs_reqs)
    then have "reqs (snd (download_static_css_and_deps e g p v))
               = reqs v @ ref_url e g p # map (ref_url e g) ?refs"
      by (simp add: d r2)
    then show ?thesis using Inr by simp
  qed
qed

lemma example_resolved:
  "add_ref (css_dir_of ''/static/abc123/css/bundle.css'') {} ''../fonts/a.woff2''
   = {''/static/abc123/fonts/a.woff2''}"
  "add_ref (css_dir_of ''/static/abc123/css/bundle.css'') {} ''/static/abc123/img/b.png''
   = {''/static/abc123/img/b.png''}"
  by code_simp+

lemma example_sorted:
  "sorted_list_of_set {''/static/abc123/fonts/a.woff2'', ''/static/abc123/img/b.png''}
   = [''/static/abc123/fonts/a.woff2'', ''/static/abc123/img/b.png'']"
  by code_simp

lemma example_paths:
  "pure_parts (lstrip_slash ''/static/abc123/css/bundle.css'')
   = [''static'', ''abc123'', ''css'', ''bundle.css'']"
  "pure_parts (lstrip_slash ''/static/abc123/fonts/a.woff2'')
   = [''static'', ''abc123'', ''fonts'', ''a.woff2'']"
  "pure_parts (lstrip_slash ''/static/abc123/img/b.png'')
   = [''static'', ''abc123'', ''img'', ''b.png'']"
  by code_simp+

text \<open>
  C3.  For the bundle at \<open>/static/abc123/css/bundle.css\<close> whose text holds the
  references \<open>../fonts/a.woff2\<close> and \<open>/static/abc123/img/b.png\<close> and no other, in
  any order and any number of times, the resolved set is exactly the two root-absolute
  paths.  When the server answers the three requests and nothing of the output tree
  stands in the way of the three files, the run asks for the bundle, then for each
  reference once, in sorted order, and writes each answer at the path of its reference,
  the other files of the tree being left as they were.  For every bundle, a download
  that succeeds has asked for the bundle and then for each element of the resolved set
  once, in sorted order.
\<close>

theorem download_bundle_example:
  assumes css: "net e (length (reqs w)) (ref_url e g ''/static/abc123/css/bundle.css'') = Inr css_bytes"
    and refs: "set (url_refs (decode e css_bytes)) = {''../fonts/a.woff2'', ''/static/abc123/img/b.png''}"
    and font: "net e (length (reqs w) + 1) (ref_url e g ''/static/abc123/fonts/a.woff2'') = Inr font_bytes"
    and img: "net e (length (reqs w) + 2) (ref_url e g ''/static/abc123/img/b.png'') = Inr img_bytes"
    and free1: "free_for (out w) [''static'', ''abc123'', ''css'', ''bundle.css'']"
    and free2: "free_for (out w) [''static'', ''abc123'', ''fonts'', ''a.woff2'']"
    and free3: "free_for (out w) [''static'', ''abc123'', ''img'', ''b.png'']"
  shows "css_refs ''/static/abc123/css/bundle.css'' (decode e css_bytes)
           = {''/static/abc123/fonts/a.woff2'', ''/static/abc123/img/b.png''}
     \<and> (\<exists>w'. download_static_css_and_deps e g ''/static/abc123/css/bundle.css'' w = (None, w')
            \<and> reqs w' = reqs w @ [ref_url e g ''/static/abc123/css/bundle.css'',
                                   ref_url e g ''/static/abc123/fonts/a.woff2'',
                                   ref_url e g ''/static/abc123/img/b.png'']
            \<and> file_at (out w') [''static'', ''abc123'', ''css'', ''bundle.css''] = Some css_bytes
            \<and> file_at (out w') [''static'', ''abc123'', ''fonts'', ''a.woff2''] = Some font_bytes
            \<and> file_at (out w') [''static'', ''abc123'', ''img'', ''b.png''] = Some img_bytes
            \<and> (\<forall>q. q \<notin> {[''static'', ''abc123'', ''css'', ''bundle.css''],
                         [''static'', ''abc123'', ''fonts'', ''a.woff2''],
                         [''static'', ''abc123'', ''img'', ''b.png'']}
                   \<longrightarrow> file_at (out w') q = file_at (out w) q))
     \<and> (\<forall>p v. fst (download_static_css_and_deps e g p v) = None \<longrightarrow>
            (\<exists>css. net e (length (reqs v)) (ref_url e g p) = Inr css
               \<and> reqs (snd (download_static_css_and_deps e g p v))
                   = reqs v @ ref_url e g p
                       # map (ref_url e g) (sorted_list_of_set (css_refs p (decode e css)))
               \<and> set (sorted_list_of_set (css_refs p (decode e css)))
                   = css_refs p (decode e css)
               \<and> distinct (sorted_list_of_set (css_refs p (decode e css)))
               \<and> sorted (sorted_list_of_set (css_refs p (decode e css)))))"
proof -
  define P1 where "P1 = [''static'', ''abc123'', ''css'', ''bundle.css'']"
  define P2 where "P2 = [''static'', ''abc123'', ''fonts'', ''a.woff2'']"
  define P3 where "P3 = [''static'', ''abc123'', ''img'', ''b.png'']"
  define u1 where "u1 = ref_url e g ''/static/abc123/css/bundle.css''"
  define u2 where "u2 = ref_url e g ''/static/abc123/fonts/a.woff2''"
  define u3 where "u3 = ref_url e g ''/static/abc123/img/b.png''"
  define v1 where "v1 = w\<lparr>reqs := reqs w @ [u1]\<rparr>"
  define w1 where "w1 = snd (write_bytes P1 css_bytes v1)"
  define v2 where "v2 = w1\<lparr>reqs := reqs w1 @ [u2]\<rparr>"
  define w2 where "w2 = snd (write_bytes P2 font_bytes v2)"
  define v3 where "v3 = w2\<lparr>reqs := reqs w2 @ [u3]\<rparr>"
  define w3 where "w3 = snd (write_bytes P3 img_bytes v3)"
  have dots: "''..'' \<notin> set P1" "''..'' \<notin> set P2" "''..'' \<notin> set P3"
    by (simp_all add: P1_def P2_def P3_def)
  have apart: "\<not> prefix P1 P2" "\<not> prefix P2 P1" "\<not> prefix P1 P3" "\<not> prefix P3 P1"
    "\<not> prefix P2 P3" "\<not> prefix P3 P2" "P1 \<noteq> P2" "P1 \<noteq> P3" "P2 \<noteq> P3"
    by (simp_all add: P1_def P2_def P3_def)
  have set_eq: "css_refs ''/static/abc123/css/bundle.css'' (decode e css_bytes)
           = {''/static/abc123/fonts/a.woff2'', ''/static/abc123/img/b.png''}"
    by (simp add: css_refs_union refs example_resolved insert_commute)
  have srt: "sorted_list_of_set (css_refs ''/static/abc123/css/bundle.css'' (decode e css_bytes))
           = [''/static/abc123/fonts/a.woff2'', ''/static/abc123/img/b.png'']"
    by (simp only: set_eq example_sorted)
  \<comment> \<open>the bundle\<close>
  have a1: "free_for (out v1) P1" using free1 by (simp add: v1_def P1_def)
  have ok1: "fst (write_bytes P1 css_bytes v1) = None" using a1 by (rule write_bytes_free)
  have e1: "write_bytes P1 css_bytes v1 = (None, w1)"
    using ok1 by (simp add: w1_def prod_eq_iff)
  have r1: "reqs w1 = reqs w @ [u1]" by (simp add: w1_def write_bytes_reqs v1_def)
  have f1: "file_at (out w1) q = (if q = P1 then Some css_bytes else file_at (out w) q)" for q
    using write_bytes_done [OF ok1 dots(1), of q] by (simp add: w1_def v1_def)
  have b2: "free_for (out w1) P2"
    unfolding w1_def
    by (rule write_bytes_keeps_free [OF dots(1) _ apart(1) apart(2)])
       (simp add: v1_def P2_def free2)
  have b3: "free_for (out w1) P3"
    unfolding w1_def
    by (rule write_bytes_keeps_free [OF dots(1) _ apart(3) apart(4)])
       (simp add: v1_def P3_def free3)
  \<comment> \<open>the font\<close>
  have n2: "net e (length (reqs w1)) u2 = Inr font_bytes"
    using font by (simp add: r1 u2_def)
  have a2: "free_for (out v2) P2" using b2 by (simp add: v2_def)
  have ok2: "fst (write_bytes P2 font_bytes v2) = None" using a2 by (rule write_bytes_free)
  have e2: "write_bytes P2 font_bytes v2 = (None, w2)"
    using ok2 by (simp add: w2_def prod_eq_iff)
  have r2: "reqs w2 = reqs w @ [u1, u2]" by (simp add: w2_def write_bytes_reqs v2_def r1)
  have f2: "file_at (out w2) q = (if q = P2 then Some font_bytes else file_at (out w1) q)" for q
    using write_bytes_done [OF ok2 dots(2), of q] by (simp add: w2_def v2_def)
  have c3: "free_for (out w2) P3"
    unfolding w2_def
    by (rule write_bytes_keeps_free [OF dots(2) _ apart(5) apart(6)])
       (simp add: v2_def b3)
  \<comment> \<open>the image\<close>
  have n3: "net e (length (reqs w2)) u3 = Inr img_bytes"
    using img by (simp add: r2 u3_def)
  have a3: "free_for (out v3) P3" using c3 by (simp add: v3_def)
  have ok3: "fst (write_bytes P3 img_bytes v3) = None" using a3 by (rule write_bytes_free)
  have e3: "write_bytes P3 img_bytes v3 = (None, w3)"
    using ok3 by (simp add: w3_def prod_eq_iff)
  have r3: "reqs w3 = reqs w @ [u1, u2, u3]" by (simp add: w3_def write_bytes_reqs v3_def r2)
  have f3: "file_at (out w3) q = (if q = P3 then Some img_bytes else file_at (out w2) q)" for q
    using write_bytes_done [OF ok3 dots(3), of q] by (simp add: w3_def v3_def)
  \<comment> \<open>the run\<close>
  have g1: "fetch_bytes e u1 w = (Inr css_bytes, v1)"
    unfolding v1_def by (rule fetch_bytes_ok) (simp add: u1_def css)
  have g2: "fetch_bytes e u2 w1 = (Inr font_bytes, v2)"
    unfolding v2_def by (rule fetch_bytes_ok) (rule n2)
  have g3: "fetch_bytes e u3 w2 = (Inr img_bytes, v3)"
    unfolding v3_def by (rule fetch_bytes_ok) (rule n3)
  have s3: "download_refs e g [] w3 = (None, w3)" by simp
  have s2: "download_refs e g [''/static/abc123/img/b.png''] w2 = (None, w3)"
    using g3 e3 by (simp add: u3_def [symmetric] example_paths P3_def [symmetric])
  have s1: "download_refs e g [''/static/abc123/fonts/a.woff2'', ''/static/abc123/img/b.png''] w1 = (None, w3)"
    using g2 e2 s2 by (simp add: u2_def [symmetric] example_paths P2_def [symmetric])
  have run: "download_static_css_and_deps e g ''/static/abc123/css/bundle.css'' w = (None, w3)"
    unfolding download_static_css_and_deps_def
    using g1 e1 s1 by (simp add: u1_def [symmetric] example_paths P1_def [symmetric] srt)
  have files: "file_at (out w3) P1 = Some css_bytes" "file_at (out w3) P2 = Some font_bytes"
    "file_at (out w3) P3 = Some img_bytes"
    using apart by (simp_all add: f1 f2 f3)
  have others: "\<forall>q. q \<notin> {P1, P2, P3} \<longrightarrow> file_at (out w3) q = file_at (out w) q"
    by (simp add: f1 f2 f3)
  have second: "\<exists>w'. download_static_css_and_deps e g ''/static/abc123/css/bundle.css'' w = (None, w')
            \<and> reqs w' = reqs w @ [u1, u2, u3]
            \<and> file_at (out w') P1 = Some css_bytes
            \<and> file_at (out w') P2 = Some font_bytes
            \<and> file_at (out w') P3 = Some img_bytes
            \<and> (\<forall>q. q \<notin> {P1, P2, P3} \<longrightarrow> file_at (out w') q = file_at (out w) q)"
    by (rule exI [of _ w3])
       (rule conjI [OF run conjI [OF r3 conjI [OF files(1) conjI [OF files(2)
          conjI [OF files(3) others]]]]])
  have third: "\<forall>p v. fst (download_static_css_and_deps e g p v) = None \<longrightarrow>
            (\<exists>css. net e (length (reqs v)) (ref_url e g p) = Inr css
               \<and> reqs (snd (download_static_css_and_deps e g p v))
                   = reqs v @ ref_url e g p
                       # map (ref_url e g) (sorted_list_of_set (css_refs p (decode e css)))
               \<and> set (sorted_list_of_set (css_refs p (decode e css)))
                   = css_refs p (decode e css)
               \<and> distinct (sorted_list_of_set (css_refs p (decode e css)))
               \<and> sorted (sorted_list_of_set (css_refs p (decode e css))))"
  proof (intro allI impI)
    fix p v
    assume "fst (download_static_css_and_deps e g p v) = None"
    then obtain css where c: "net e (length (reqs v)) (ref_url e g p) = Inr css"
      and r: "reqs (snd (download_static_css_and_deps e g p v))
                   = reqs v @ ref_url e g p
                       # map (ref_url e g) (sorted_list_of_set (css_refs p (decode e css)))"
      using download_reqs by blast
    have s: "set (sorted_list_of_set (css_refs p (decode e css))) = css_refs p (decode e css)"
      using finite_css_refs by simp
    have d: "distinct (sorted_list_of_set (css_refs p (decode e css)))" by simp
    have o: "sorted (sorted_list_of_set (css_refs p (decode e css)))" by simp
    show "\<exists>css. net e (length (reqs v)) (ref_url e g p) = Inr css
               \<and> reqs (snd (download_static_css_and_deps e g p v))
                   = reqs v @ ref_url e g p
                       # map (ref_url e g) (sorted_list_of_set (css_refs p (decode e css)))
               \<and> set (sorted_list_of_set (css_refs p (decode e css)))
                   = css_refs p (decode e css)
               \<and> distinct (sorted_list_of_set (css_refs p (decode e css)))
               \<and> sorted (sorted_list_of_set (css_refs p (decode e css)))"
      by (rule exI [of _ css]) (rule conjI [OF c conjI [OF r conjI [OF s conjI [OF d o]]]])
  qed
  show ?thesis
    using set_eq second third
    unfolding P1_def P2_def P3_def u1_def u2_def u3_def
    by (intro conjI)
qed


theorem download_bundle_example_witness:
  "url_refs ''a{background:url(/static/abc123/img/b.png)}@font-face{src:url(../fonts/a.woff2)}b{background:url( /static/abc123/img/b.png )}''
     = [''/static/abc123/img/b.png'', ''../fonts/a.woff2'', ''/static/abc123/img/b.png'']
   \<and> css_refs ''/static/abc123/css/bundle.css''
       ''a{background:url(/static/abc123/img/b.png)}@font-face{src:url(../fonts/a.woff2)}b{background:url( /static/abc123/img/b.png )}''
     = {''/static/abc123/fonts/a.woff2'', ''/static/abc123/img/b.png''}
   \<and> fst (download_static_css_and_deps
       \<lparr>config = NoDir, assets = None,
      net = (\<lambda>n u. if u = ''http://h/static/abc123/css/bundle.css''
                     then Inr ''a{background:url(/static/abc123/img/b.png)}@font-face{src:url(../fonts/a.woff2)}b{background:url( /static/abc123/img/b.png )}''
                   else if u = ''http://h/static/abc123/fonts/a.woff2'' then Inr ''FONT''
                   else if u = ''http://h/static/abc123/img/b.png'' then Inr ''IMG''
                   else Inl ''HTTP Error 404: Not Found''),
      expired = (\<lambda>n. True), decode = (\<lambda>s. s), encode = (\<lambda>s. s), urljoin = (@)\<rparr>
       ''http://h'' ''/static/abc123/css/bundle.css''
       \<lparr>out = [([''assets''], Folder), ([''assets'', ''user.css''], File ''body{}''),
              ([''static''], Folder)],
       reqs = [''http://h/home'']\<rparr>) = None
   \<and> reqs (snd (download_static_css_and_deps
       \<lparr>config = NoDir, assets = None,
      net = (\<lambda>n u. if u = ''http://h/static/abc123/css/bundle.css''
                     then Inr ''a{background:url(/static/abc123/img/b.png)}@font-face{src:url(../fonts/a.woff2)}b{background:url( /static/abc123/img/b.png )}''
                   else if u = ''http://h/static/abc123/fonts/a.woff2'' then Inr ''FONT''
                   else if u = ''http://h/static/abc123/img/b.png'' then Inr ''IMG''
                   else Inl ''HTTP Error 404: Not Found''),
      expired = (\<lambda>n. True), decode = (\<lambda>s. s), encode = (\<lambda>s. s), urljoin = (@)\<rparr>
       ''http://h'' ''/static/abc123/css/bundle.css''
       \<lparr>out = [([''assets''], Folder), ([''assets'', ''user.css''], File ''body{}''),
              ([''static''], Folder)],
       reqs = [''http://h/home'']\<rparr>))
     = [''http://h/home'', ''http://h/static/abc123/css/bundle.css'',
        ''http://h/static/abc123/fonts/a.woff2'', ''http://h/static/abc123/img/b.png'']
   \<and> file_at (out (snd (download_static_css_and_deps
       \<lparr>config = NoDir, assets = None,
      net = (\<lambda>n u. if u = ''http://h/static/abc123/css/bundle.css''
                     then Inr ''a{background:url(/static/abc123/img/b.png)}@font-face{src:url(../fonts/a.woff2)}b{background:url( /static/abc123/img/b.png )}''
                   else if u = ''http://h/static/abc123/fonts/a.woff2'' then Inr ''FONT''
                   else if u = ''http://h/static/abc123/img/b.png'' then Inr ''IMG''
                   else Inl ''HTTP Error 404: Not Found''),
      expired = (\<lambda>n. True), decode = (\<lambda>s. s), encode = (\<lambda>s. s), urljoin = (@)\<rparr>
       ''http://h'' ''/static/abc123/css/bundle.css''
       \<lparr>out = [([''assets''], Folder), ([''assets'', ''user.css''], File ''body{}''),
              ([''static''], Folder)],
       reqs = [''http://h/home'']\<rparr>)))
       [''static'', ''abc123'', ''fonts'', ''a.woff2''] = Some ''FONT''
   \<and> file_at (out (snd (download_static_css_and_deps
       \<lparr>config = NoDir, assets = None,
      net = (\<lambda>n u. if u = ''http://h/static/abc123/css/bundle.css''
                     then Inr ''a{background:url(/static/abc123/img/b.png)}@font-face{src:url(../fonts/a.woff2)}b{background:url( /static/abc123/img/b.png )}''
                   else if u = ''http://h/static/abc123/fonts/a.woff2'' then Inr ''FONT''
                   else if u = ''http://h/static/abc123/img/b.png'' then Inr ''IMG''
                   else Inl ''HTTP Error 404: Not Found''),
      expired = (\<lambda>n. True), decode = (\<lambda>s. s), encode = (\<lambda>s. s), urljoin = (@)\<rparr>
       ''http://h'' ''/static/abc123/css/bundle.css''
       \<lparr>out = [([''assets''], Folder), ([''assets'', ''user.css''], File ''body{}''),
              ([''static''], Folder)],
       reqs = [''http://h/home'']\<rparr>)))
       [''static'', ''abc123'', ''img'', ''b.png''] = Some ''IMG''
   \<and> file_at (out (snd (download_static_css_and_deps
       \<lparr>config = NoDir, assets = None,
      net = (\<lambda>n u. if u = ''http://h/static/abc123/css/bundle.css''
                     then Inr ''a{background:url(/static/abc123/img/b.png)}@font-face{src:url(../fonts/a.woff2)}b{background:url( /static/abc123/img/b.png )}''
                   else if u = ''http://h/static/abc123/fonts/a.woff2'' then Inr ''FONT''
                   else if u = ''http://h/static/abc123/img/b.png'' then Inr ''IMG''
                   else Inl ''HTTP Error 404: Not Found''),
      expired = (\<lambda>n. True), decode = (\<lambda>s. s), encode = (\<lambda>s. s), urljoin = (@)\<rparr>
       ''http://h'' ''/static/abc123/css/bundle.css''
       \<lparr>out = [([''assets''], Folder), ([''assets'', ''user.css''], File ''body{}''),
              ([''static''], Folder)],
       reqs = [''http://h/home'']\<rparr>)))
       [''assets'', ''user.css''] = Some ''body{}''"
proof -
  define e where "e = \<lparr>config = NoDir, assets = None,
      net = (\<lambda>n u. if u = ''http://h/static/abc123/css/bundle.css''
                     then Inr ''a{background:url(/static/abc123/img/b.png)}@font-face{src:url(../fonts/a.woff2)}b{background:url( /static/abc123/img/b.png )}''
                   else if u = ''http://h/static/abc123/fonts/a.woff2'' then Inr ''FONT''
                   else if u = ''http://h/static/abc123/img/b.png'' then Inr ''IMG''
                   else Inl ''HTTP Error 404: Not Found''),
      expired = (\<lambda>n. True), decode = (\<lambda>s. s), encode = (\<lambda>s. s), urljoin = (@)\<rparr>"
  define w where "w = \<lparr>out = [([''assets''], Folder), ([''assets'', ''user.css''], File ''body{}''),
              ([''static''], Folder)],
       reqs = [''http://h/home'']\<rparr>"
  define css where "css = ''a{background:url(/static/abc123/img/b.png)}@font-face{src:url(../fonts/a.woff2)}b{background:url( /static/abc123/img/b.png )}''"
  have u: "url_refs css = [''/static/abc123/img/b.png'', ''../fonts/a.woff2'', ''/static/abc123/img/b.png'']"
    unfolding css_def by code_simp
  have urls: "ref_url e ''http://h'' ''/static/abc123/css/bundle.css'' = ''http://h/static/abc123/css/bundle.css''"
    "ref_url e ''http://h'' ''/static/abc123/fonts/a.woff2'' = ''http://h/static/abc123/fonts/a.woff2''"
    "ref_url e ''http://h'' ''/static/abc123/img/b.png'' = ''http://h/static/abc123/img/b.png''"
    unfolding e_def by code_simp+
  have h1: "net e (length (reqs w)) (ref_url e ''http://h'' ''/static/abc123/css/bundle.css'') = Inr css"
    unfolding urls by (simp add: e_def css_def)
  have h2: "set (url_refs (decode e css)) = {''../fonts/a.woff2'', ''/static/abc123/img/b.png''}"
    using u by (auto simp add: e_def)
  have h3: "net e (length (reqs w) + 1) (ref_url e ''http://h'' ''/static/abc123/fonts/a.woff2'') = Inr ''FONT''"
    unfolding urls by (simp add: e_def)
  have h4: "net e (length (reqs w) + 2) (ref_url e ''http://h'' ''/static/abc123/img/b.png'') = Inr ''IMG''"
    unfolding urls by (simp add: e_def)
  have h5: "free_for (out w) [''static'', ''abc123'', ''css'', ''bundle.css'']"
    unfolding w_def by code_simp
  have h6: "free_for (out w) [''static'', ''abc123'', ''fonts'', ''a.woff2'']"
    unfolding w_def by code_simp
  have h7: "free_for (out w) [''static'', ''abc123'', ''img'', ''b.png'']"
    unfolding w_def by code_simp
  have old: "file_at (out w) [''assets'', ''user.css''] = Some ''body{}''"
    unfolding w_def by code_simp
  have d: "decode e css = css" by (simp add: e_def)
  note t = download_bundle_example [OF h1 h2 h3 h4 h5 h6 h7]
  from t have a: "css_refs ''/static/abc123/css/bundle.css'' css = {''/static/abc123/fonts/a.woff2'', ''/static/abc123/img/b.png''}"
    by (simp add: d)
  from t [THEN conjunct2, THEN conjunct1] obtain w' where run: "download_static_css_and_deps e ''http://h'' ''/static/abc123/css/bundle.css'' w = (None, w')"
    and r: "reqs w' = reqs w @ [ref_url e ''http://h'' ''/static/abc123/css/bundle.css'',
                                   ref_url e ''http://h'' ''/static/abc123/fonts/a.woff2'',
                                   ref_url e ''http://h'' ''/static/abc123/img/b.png'']"
    and f2: "file_at (out w') [''static'', ''abc123'', ''fonts'', ''a.woff2''] = Some ''FONT''"
    and f3: "file_at (out w') [''static'', ''abc123'', ''img'', ''b.png''] = Some ''IMG''"
    and o: "\<forall>q. q \<notin> {[''static'', ''abc123'', ''css'', ''bundle.css''],
                         [''static'', ''abc123'', ''fonts'', ''a.woff2''],
                         [''static'', ''abc123'', ''img'', ''b.png'']}
                   \<longrightarrow> file_at (out w') q = file_at (out w) q"
    by (elim exE conjE)
  have o': "file_at (out w') [''assets'', ''user.css''] = Some ''body{}''"
    using o [rule_format, of "[''assets'', ''user.css'']"] old by simp
  have r': "reqs w' = [''http://h/home'', ''http://h/static/abc123/css/bundle.css'',
        ''http://h/static/abc123/fonts/a.woff2'', ''http://h/static/abc123/img/b.png'']"
    unfolding r urls by (simp add: w_def)
  have "url_refs css = [''/static/abc123/img/b.png'', ''../fonts/a.woff2'', ''/static/abc123/img/b.png'']
   \<and> css_refs ''/static/abc123/css/bundle.css'' css = {''/static/abc123/fonts/a.woff2'', ''/static/abc123/img/b.png''}
   \<and> fst (download_static_css_and_deps e ''http://h'' ''/static/abc123/css/bundle.css'' w) = None
   \<and> reqs (snd (download_static_css_and_deps e ''http://h'' ''/static/abc123/css/bundle.css'' w))
     = [''http://h/home'', ''http://h/static/abc123/css/bundle.css'',
        ''http://h/static/abc123/fonts/a.woff2'', ''http://h/static/abc123/img/b.png'']
   \<and> file_at (out (snd (download_static_css_and_deps e ''http://h'' ''/static/abc123/css/bundle.css'' w)))
       [''static'', ''abc123'', ''fonts'', ''a.woff2''] = Some ''FONT''
   \<and> file_at (out (snd (download_static_css_and_deps e ''http://h'' ''/static/abc123/css/bundle.css'' w)))
       [''static'', ''abc123'', ''img'', ''b.png''] = Some ''IMG''
   \<and> file_at (out (snd (download_static_css_and_deps e ''http://h'' ''/static/abc123/css/bundle.css'' w)))
       [''assets'', ''user.css''] = Some ''body{}''"
    using u a r' f2 f3 o' by (simp add: run)
  then show ?thesis unfolding e_def w_def css_def .
qed

text \<open>
  C5.  A protocol-relative reference begins with a slash, so the loop takes it for a
  root-absolute path of the server and keeps it in the download set.
\<close>

theorem css_refs_keeps_protocol_relative:
  "css_refs ''/static/abc123/css/bundle.css'' ''a{background:url(//cdn.example/x.png)}''
   = {''//cdn.example/x.png''}"
  by code_simp

section \<open>Content injection: a fragment with a backslash\<close>

text \<open>
  C2.  The fragment is spliced into the replacement string of \<open>re.subn\<close>, so its
  backslashes are read as escapes of the template: a backslash and an \<open>n\<close> become a
  line feed, and a backslash and a \<open>d\<close> raise an error.
\<close>

theorem inject_content_backslash_fragment:
  "inject_content
     ([CHR ''<'', CHR ''d'', CHR ''i'', CHR ''v'', CHR '' '', CHR ''i'', CHR ''d'', CHR ''='',
       CHR 0x22] @ ''page-content'' @ [CHR 0x22] @ ''></div>'')
     (''a'' @ [bslash] @ ''nb'')
   = Inr ([CHR ''<'', CHR ''d'', CHR ''i'', CHR ''v'', CHR '' '', CHR ''i'', CHR ''d'', CHR ''='',
           CHR 0x22] @ ''page-content'' @ [CHR 0x22] @ ''>a'' @ [CHR 0x0A] @ ''b</div>'')
   \<and> inject_content
     ([CHR ''<'', CHR ''d'', CHR ''i'', CHR ''v'', CHR '' '', CHR ''i'', CHR ''d'', CHR ''='',
       CHR 0x22] @ ''page-content'' @ [CHR 0x22] @ ''></div>'')
     (''<code>'' @ [bslash] @ ''d+</code>'')
   = Inl TemplateError"
  by code_simp

section \<open>The run\<close>

declare wait_ready.simps [code]

lemma fetch_bytes_world:
  "fetch_bytes e u w = (r, w') \<Longrightarrow> out w' = out w \<and> reqs w' = reqs w @ [u]"
  by (auto simp: fetch_bytes_def split: sum.splits)

lemma fetch_text_world:
  "fetch_text e u w = (r, w') \<Longrightarrow> out w' = out w \<and> reqs w' = reqs w @ [u]"
  by (auto simp: fetch_text_def split: prod.splits sum.splits dest: fetch_bytes_world)

lemma map_of_copied:
  "map_of (map (\<lambda>(p, n). (''assets'' # p, n)) a) p
   = (case p of [] \<Rightarrow> None | c # q \<Rightarrow> if c = ''assets'' then map_of a q else None)"
  by (induction a) (auto split: list.splits)

lemma copy_assets_map_of:
  "out w = [] \<Longrightarrow>
   map_of (out (copy_assets a w)) p
   = (case p of [] \<Rightarrow> None
      | c # q \<Rightarrow> if c = ''assets'' then (if q = [] then Some Folder else map_of a q) else None)"
  by (simp add: copy_assets_def map_of_copied split: list.splits)

lemma copy_assets_reqs: "reqs (copy_assets a w) = reqs w"
  by (simp add: copy_assets_def)

lemma fetch_manifest_map_of:
  "p \<noteq> [''manifest.json''] \<Longrightarrow>
   map_of (out (fetch_manifest e g w)) p = map_of (out w) p"
proof (cases "fetch_bytes e (g @ ''/manifest.json'') w")
  case (Pair r w')
  assume p: "p \<noteq> [''manifest.json'']"
  have o: "out w' = out w" using Pair by (simp add: fetch_bytes_world)
  show ?thesis
  proof (cases r)
    case (Inl err)
    then show ?thesis using Pair o by (simp add: fetch_manifest_def)
  next
    case (Inr manifest)
    then show ?thesis using Pair o p
      by (auto simp: fetch_manifest_def write_bytes_def update_conv'
               split: option.splits node.splits)
  qed
qed

lemma fetch_manifest_reqs:
  "reqs (fetch_manifest e g w) = reqs w @ [g @ ''/manifest.json'']"
proof (cases "fetch_bytes e (g @ ''/manifest.json'') w")
  case (Pair r w')
  then have "reqs w' = reqs w @ [g @ ''/manifest.json'']" by (simp add: fetch_bytes_world)
  then show ?thesis using Pair
    by (cases r) (simp_all add: fetch_manifest_def write_bytes_reqs)
qed


text \<open>
  C7.  When discovery has found slugs, the server has become ready, the assets exist
  and the server answers the request for the sample shell with a document that holds
  no stylesheet link of the bundle's shape, the run ends with the uncaught error of the
  extraction, so with status 1.  Its last request is that for the sample shell: no page
  is asked for.  The output tree then holds the copy of the assets and, when it was
  fetched, the manifest, and nothing else: no root document, and no directory and no
  document of a slug.
\<close>

theorem missing_bundle_aborts:
  assumes slugs: "discover_slugs (config e) = Inr slugs" "slugs \<noteq> []"
    and ready: "wait_ready e (rstrip_slash (arg_glance_url a)
                    @ (if ''home'' \<in> set slugs then ''/home'' else ''/'')) w = Some (True, w1)"
    and tree: "assets e = Some tree"
    and shell: "net e (length (reqs w1) + 1)
                  (rstrip_slash (arg_glance_url a)
                     @ (if ''home'' \<in> set slugs then ''/home'' else ''/'' @ hd slugs))
                = Inr shell_bytes"
    and nolink: "re_search True bundle_re (decode e shell_bytes) = None"
  shows "\<exists>w3. main e a w = Some (Uncaught (RuntimeError ''Could not find bundle.css path in page HTML''), w3)
     \<and> exit_status (Uncaught (RuntimeError ''Could not find bundle.css path in page HTML'')) = 1
     \<and> reqs w3 = reqs w1 @ [rstrip_slash (arg_glance_url a) @ ''/manifest.json'',
                              rstrip_slash (arg_glance_url a)
                                @ (if ''home'' \<in> set slugs then ''/home'' else ''/'' @ hd slugs)]
     \<and> (\<forall>p n. map_of (out w3) p = Some n
                \<longrightarrow> p = [''manifest.json''] \<or> (\<exists>q. p = ''assets'' # q))
     \<and> (\<forall>q. q \<noteq> [] \<longrightarrow> map_of (out w3) (''assets'' # q) = map_of tree q)
     \<and> map_of (out w3) [''index.html''] = None
     \<and> (\<forall>slug. slug \<noteq> ''assets'' \<longrightarrow> map_of (out w3) [slug, ''index.html''] = None)
     \<and> (\<forall>slug. slug \<noteq> ''assets'' \<and> slug \<noteq> ''manifest.json''
                \<longrightarrow> map_of (out w3) [slug] = None)"
proof -
  define g where "g = rstrip_slash (arg_glance_url a)"
  define u where "u = g @ (if ''home'' \<in> set slugs then ''/home'' else ''/'' @ hd slugs)"
  define w2 where "w2 = fetch_manifest e g (copy_assets tree (w1\<lparr>out := []\<rparr>))"
  define w3 where "w3 = w2\<lparr>reqs := reqs w2 @ [u]\<rparr>"
  have r2: "reqs w2 = reqs w1 @ [g @ ''/manifest.json'']"
    by (simp add: w2_def fetch_manifest_reqs copy_assets_reqs)
  have "net e (length (reqs w2)) u = Inr shell_bytes"
    using shell by (simp add: r2 u_def g_def)
  then have fb: "fetch_bytes e u w2 = (Inr shell_bytes, w3)"
    by (simp add: fetch_bytes_def w3_def)
  then have ft: "fetch_text e u w2 = (Inr (decode e shell_bytes), w3)"
    by (simp add: fetch_text_def)
  have ex: "extract_bundle_css_path (decode e shell_bytes) = Inl (RuntimeError ''Could not find bundle.css path in page HTML'')"
    using nolink by (simp add: extract_bundle_css_path_def)
  have site: "export_site e g (normalize_base_path (arg_base_path a)) slugs w1
        = (Uncaught (RuntimeError ''Could not find bundle.css path in page HTML''), w3)"
    using tree ft [unfolded w2_def u_def] ex unfolding export_site_def Let_def
    by simp
  have m: "main e a w = Some (Uncaught (RuntimeError ''Could not find bundle.css path in page HTML''), w3)"
    using slugs ready site unfolding main_def Let_def g_def by simp
  have st: "exit_status (Uncaught (RuntimeError ''Could not find bundle.css path in page HTML'')) = 1"
    by (simp add: exit_status_def)
  have r3: "reqs w3 = reqs w1 @ [g @ ''/manifest.json'', u]"
    by (simp add: w3_def r2)
  have o3: "out w3 = out w2" by (simp add: w3_def)
  have cp: "map_of (out (copy_assets tree (w1\<lparr>out := []\<rparr>))) p
      = (case p of [] \<Rightarrow> None
         | c # q \<Rightarrow> if c = ''assets'' then (if q = [] then Some Folder else map_of tree q)
                    else None)" for p
    by (rule copy_assets_map_of) simp
  have other: "map_of (out w3) p
      = (case p of [] \<Rightarrow> None
         | c # q \<Rightarrow> if c = ''assets'' then (if q = [] then Some Folder else map_of tree q)
                    else None)" if "p \<noteq> [''manifest.json'']" for p
    using that by (simp add: o3 w2_def fetch_manifest_map_of cp)
  have all: "\<forall>p n. map_of (out w3) p = Some n
                \<longrightarrow> p = [''manifest.json''] \<or> (\<exists>q. p = ''assets'' # q)"
  proof (intro allI impI)
    fix p n
    assume s: "map_of (out w3) p = Some n"
    show "p = [''manifest.json''] \<or> (\<exists>q. p = ''assets'' # q)"
    proof (cases "p = [''manifest.json'']")
      case True
      then show ?thesis by simp
    next
      case False
      then show ?thesis using s other [OF False] by (auto split: list.splits if_splits)
    qed
  qed
  have copy: "\<forall>q. q \<noteq> [] \<longrightarrow> map_of (out w3) (''assets'' # q) = map_of tree q"
    by (simp add: other)
  have root: "map_of (out w3) [''index.html''] = None"
    by (simp add: other)
  have pages: "\<forall>slug. slug \<noteq> ''assets'' \<longrightarrow> map_of (out w3) [slug, ''index.html''] = None"
    by (simp add: other)
  have dirs: "\<forall>slug. slug \<noteq> ''assets'' \<and> slug \<noteq> ''manifest.json''
                \<longrightarrow> map_of (out w3) [slug] = None"
    by (simp add: other)
  show ?thesis
    unfolding g_def [symmetric] u_def [symmetric]
    by (rule exI [of _ w3])
       (rule conjI [OF m conjI [OF st conjI [OF r3 conjI [OF all conjI [OF copy
          conjI [OF root conjI [OF pages dirs]]]]]]])
qed


theorem missing_bundle_aborts_witness:
  "discover_slugs (config \<lparr>config = Dir [(''home.yml'', Content ''slug: home'')],
       assets = Some [([''logo.png''], File ''PNG'')],
       net = (\<lambda>n u. if u = ''http://h/home''
                     then Inr ''<html><head><title>t</title></head></html>''
                     else Inl ''HTTP Error 404: Not Found''),
       expired = (\<lambda>n. True), decode = (\<lambda>s. s), encode = (\<lambda>s. s), urljoin = (@)\<rparr>) = Inr [''home'']
   \<and> re_search True bundle_re ''<html><head><title>t</title></head></html>'' = None
   \<and> main \<lparr>config = Dir [(''home.yml'', Content ''slug: home'')],
       assets = Some [([''logo.png''], File ''PNG'')],
       net = (\<lambda>n u. if u = ''http://h/home''
                     then Inr ''<html><head><title>t</title></head></html>''
                     else Inl ''HTTP Error 404: Not Found''),
       expired = (\<lambda>n. True), decode = (\<lambda>s. s), encode = (\<lambda>s. s), urljoin = (@)\<rparr>
       \<lparr>arg_glance_url = ''http://h/'', arg_base_path = ''/repo''\<rparr>
       \<lparr>out = [([''old.txt''], File ''x'')], reqs = []\<rparr>
     = Some (Uncaught (RuntimeError ''Could not find bundle.css path in page HTML''),
          \<lparr>out = [([''assets''], Folder), ([''assets'', ''logo.png''], File ''PNG'')],
            reqs = [''http://h/home'', ''http://h/manifest.json'', ''http://h/home'']\<rparr>)"
proof -
  define e where "e = \<lparr>config = Dir [(''home.yml'', Content ''slug: home'')],
       assets = Some [([''logo.png''], File ''PNG'')],
       net = (\<lambda>n u. if u = ''http://h/home''
                     then Inr ''<html><head><title>t</title></head></html>''
                     else Inl ''HTTP Error 404: Not Found''),
       expired = (\<lambda>n. True), decode = (\<lambda>s. s), encode = (\<lambda>s. s), urljoin = (@)\<rparr>"
  define a where "a = \<lparr>arg_glance_url = ''http://h/'', arg_base_path = ''/repo''\<rparr>"
  define w where "w = \<lparr>out = [([''old.txt''], File ''x'')], reqs = []\<rparr>"
  define w1 where "w1 = \<lparr>out = [([''old.txt''], File ''x'')], reqs = [''http://h/home'']\<rparr>"
  have h1: "discover_slugs (config e) = Inr [''home'']"
    unfolding e_def by code_simp
  have h2: "[''home''] \<noteq> []" by simp
  have h3: "wait_ready e (rstrip_slash (arg_glance_url a)
              @ (if ''home'' \<in> set [''home''] then ''/home'' else ''/'')) w = Some (True, w1)"
    unfolding e_def a_def w_def w1_def by code_simp
  have h4: "assets e = Some [([''logo.png''], File ''PNG'')]"
    by (simp add: e_def)
  have h5: "net e (length (reqs w1) + 1)
              (rstrip_slash (arg_glance_url a)
                 @ (if ''home'' \<in> set [''home''] then ''/home'' else ''/'' @ hd [''home'']))
            = Inr ''<html><head><title>t</title></head></html>''"
    unfolding e_def a_def w1_def by code_simp
  have n: "re_search True bundle_re ''<html><head><title>t</title></head></html>'' = None"
    by code_simp
  have h6: "re_search True bundle_re (decode e ''<html><head><title>t</title></head></html>'') = None"
    using n by (simp add: e_def)
  have c: "main e a w = Some (Uncaught (RuntimeError ''Could not find bundle.css path in page HTML''),
          \<lparr>out = [([''assets''], Folder), ([''assets'', ''logo.png''], File ''PNG'')],
            reqs = [''http://h/home'', ''http://h/manifest.json'', ''http://h/home'']\<rparr>)"
    unfolding e_def a_def w_def by code_simp
  from missing_bundle_aborts [OF h1 h2 h3 h4 h5 h6]
  obtain w3 where m: "main e a w = Some (Uncaught (RuntimeError ''Could not find bundle.css path in page HTML''), w3)"
    and r: "map_of (out w3) [''index.html''] = None"
    by (elim exE conjE)
  have "w3 = \<lparr>out = [([''assets''], Folder), ([''assets'', ''logo.png''], File ''PNG'')],
            reqs = [''http://h/home'', ''http://h/manifest.json'', ''http://h/home'']\<rparr>" using m c by simp
  then have "main e a w = Some (Uncaught (RuntimeError ''Could not find bundle.css path in page HTML''),
          \<lparr>out = [([''assets''], Folder), ([''assets'', ''logo.png''], File ''PNG'')],
            reqs = [''http://h/home'', ''http://h/manifest.json'', ''http://h/home'']\<rparr>)"
    using m by simp
  then show ?thesis using h1 n unfolding e_def a_def w_def by simp
qed

end
